theory Spec2Isabelle
  imports Complex_Main "HOL-Library.AList"
begin

section \<open>Core types (core/Types.ts)\<close>

text \<open>
  \<open>Heartbeat\<close> and \<open>HeartbeatData\<close> as the interfaces declare them: the timestamp is an integer
  number of milliseconds, \<open>data\<close> is present on every heartbeat, and an absent \<open>appWindow\<close> is
  \<open>None\<close>.
\<close>

datatype activity = Active | Inactive | May_be_inactive

record appWindowData =
  app :: string
  title :: string

record heartbeatData =
  userActivity :: activity
  appWindow :: "appWindowData option"

record heartbeat =
  timestamp :: int
  data :: heartbeatData

section \<open>The may_be_inactive correction (storage/ActivityStorage.ts, handleMayBeInactive)\<close>

text \<open>
  The backward search \<^verbatim>\<open>for (let i = length - 1; i >= 0; i--)\<close>. The third argument is the
  number of indices still to visit, so \<open>Suc i\<close> stands for the loop variable \<open>i\<close>; the
  result is the source's \<open>lastActiveIndex\<close>, with \<open>-1\<close> when the loop runs out.
\<close>

fun lastActiveLoop :: "heartbeat list \<Rightarrow> int \<Rightarrow> nat \<Rightarrow> int" where
  "lastActiveLoop hs t 0 = -1"
| "lastActiveLoop hs t (Suc i) =
     (if timestamp (hs ! i) \<ge> t then lastActiveLoop hs t i
      else if userActivity (data (hs ! i)) = Active then int i
      else lastActiveLoop hs t i)"

definition markInactive :: "heartbeat \<Rightarrow> heartbeat" where
  "markInactive hb = hb\<lparr>data := (data hb)\<lparr>userActivity := Inactive\<rparr>\<rparr>"

text \<open>
  The forward loop \<^verbatim>\<open>for (let i = lastActiveIndex + 1; i < length; i++)\<close> with its
  \<^verbatim>\<open>break\<close> at the first heartbeat whose timestamp is not before the current one. The
  state of the loop is the copied array and the flag \<open>changed\<close>.
\<close>

function convertLoop :: "heartbeat list \<Rightarrow> int \<Rightarrow> nat \<Rightarrow> bool \<Rightarrow> heartbeat list \<times> bool" where
  "convertLoop hs t i changed =
     (if i < length hs then
        (if timestamp (hs ! i) \<ge> t then (hs, changed)
         else if userActivity (data (hs ! i)) = May_be_inactive
           then convertLoop (hs[i := markInactive (hs ! i)]) t (i + 1) True
           else convertLoop hs t (i + 1) changed)
      else (hs, changed))"
  by pat_completeness auto
termination
  by (relation "measure (\<lambda>(hs, t, i, c). length hs - i)") auto

declare convertLoop.simps [simp del]

definition handleMayBeInactive :: "heartbeat list \<Rightarrow> int \<Rightarrow> heartbeatData \<Rightarrow> heartbeat list" where
  "handleMayBeInactive heartbeats currentTimestamp heartbeatData =
     (if heartbeats = [] \<or> userActivity heartbeatData \<noteq> Inactive then heartbeats
      else if \<not> list_ex (\<lambda>hb. userActivity (data hb) = May_be_inactive) heartbeats then heartbeats
      else
        (let updatedHeartbeats = heartbeats;
             lastActiveIndex = lastActiveLoop updatedHeartbeats currentTimestamp (length updatedHeartbeats);
             (updatedHeartbeats', changed) =
                convertLoop updatedHeartbeats currentTimestamp (nat (lastActiveIndex + 1)) False
         in if changed then updatedHeartbeats' else heartbeats))"

text \<open>
  Reading aids for the correction. \<open>activeBefore hs t m\<close>: position \<open>m\<close> holds an \<open>active\<close>
  heartbeat whose timestamp is before \<open>t\<close>. \<open>lastActiveBefore hs t a\<close>: \<open>a\<close> is the position of
  the last such heartbeat, or \<open>-1\<close> when there is none. \<open>reached hs t i j\<close>: the forward loop
  started at \<open>i\<close> gets as far as \<open>j\<close>, that is, no heartbeat at \<open>i..j\<close> has a timestamp at or
  after \<open>t\<close>.
\<close>

definition activeBefore :: "heartbeat list \<Rightarrow> int \<Rightarrow> nat \<Rightarrow> bool" where
  "activeBefore hs t m \<longleftrightarrow>
     m < length hs \<and> timestamp (hs ! m) < t \<and> userActivity (data (hs ! m)) = Active"

definition lastActiveBefore :: "heartbeat list \<Rightarrow> int \<Rightarrow> int \<Rightarrow> bool" where
  "lastActiveBefore hs t a \<longleftrightarrow>
     (a = -1 \<or> (0 \<le> a \<and> activeBefore hs t (nat a))) \<and> (\<forall>m. a < int m \<longrightarrow> \<not> activeBefore hs t m)"

definition reached :: "heartbeat list \<Rightarrow> int \<Rightarrow> nat \<Rightarrow> nat \<Rightarrow> bool" where
  "reached hs t i j \<longleftrightarrow>
     i \<le> j \<and> j < length hs \<and> (\<forall>m. i \<le> m \<and> m \<le> j \<longrightarrow> timestamp (hs ! m) < t)"

section \<open>The in-memory store (storage/ActivityState.ts)\<close>

text \<open>
  \<open>DayData\<close> of core/Types.ts with its heartbeats; the optional \<open>aggregated\<close> field is neither
  read nor written by the functions below.
\<close>

record dayData =
  heartbeats :: "heartbeat list"

text \<open>
  \<open>StoreData\<close> of core/Types.ts. The \<open>days\<close> object is a list of entries in insertion order,
  one entry per key.
\<close>

record storeData =
  version :: int
  lastCleanupTime :: int
  startTime :: int
  aggregationInterval :: int
  days :: "(string \<times> dayData) list"

text \<open>Modelled from the spec: \<open>ActivityState.getHeartbeats\<close> (ActivityState.ts is not among the
  sources), the heartbeat sequence stored for a day key, undefined when the day has no entry.\<close>

definition getHeartbeats :: "storeData \<Rightarrow> string \<Rightarrow> heartbeat list option" where
  "getHeartbeats st dateKey = map_option heartbeats (map_of (days st) dateKey)"

text \<open>Modelled from the spec: \<open>ActivityState.setHeartbeats\<close>, a full replace of the day's sequence;
  the day entry is created on first use.\<close>

definition setHeartbeats :: "string \<Rightarrow> heartbeat list \<Rightarrow> storeData \<Rightarrow> storeData" where
  "setHeartbeats dateKey hs st = st\<lparr>days := AList.update dateKey \<lparr>heartbeats = hs\<rparr> (days st)\<rparr>"

text \<open>Modelled from the spec: \<open>ActivityState.getAvailableDates\<close>, all keys with data, unsorted.\<close>

definition getAvailableDates :: "storeData \<Rightarrow> string list" where
  "getAvailableDates st = map fst (days st)"

text \<open>Modelled from the spec: \<open>ActivityState.deleteDay\<close>, which removes the entry of one day.\<close>

definition deleteDay :: "string \<Rightarrow> storeData \<Rightarrow> storeData" where
  "deleteDay dateKey st = st\<lparr>days := AList.delete dateKey (days st)\<rparr>"

text \<open>Modelled from the spec: \<open>ActivityState.getLastCleanupTime\<close>.\<close>

definition getLastCleanupTime :: "storeData \<Rightarrow> int" where
  "getLastCleanupTime st = lastCleanupTime st"

text \<open>Modelled from the spec: \<open>ActivityState.updateLastCleanupTime\<close>, which records the clock
  reading \<open>now\<close> taken at the call as the time of the last cleanup.\<close>

definition updateLastCleanupTime :: "int \<Rightarrow> storeData \<Rightarrow> storeData" where
  "updateLastCleanupTime now st = st\<lparr>lastCleanupTime := now\<rparr>"

text \<open>Modelled from the spec: \<open>ActivityState.getFullStoreData\<close>, the serializable snapshot.\<close>

definition getFullStoreData :: "storeData \<Rightarrow> storeData" where
  "getFullStoreData st = st"

text \<open>Modelled from the spec: \<open>ActivityState.setData\<close>, the bulk replace of the whole store.\<close>

definition setData :: "storeData \<Rightarrow> storeData \<Rightarrow> storeData" where
  "setData d st = d"

section \<open>JavaScript values read from and written to the store file\<close>

datatype json =
  JNull | JBool bool | JNum real | JStr string | JArr "json list" | JObj "(string \<times> json) list"

datatype jsError = IoError | SyntaxError | TypeError

text \<open>\<open>!v\<close> is false exactly for the truthy values; \<open>None\<close> stands for \<open>undefined\<close>.\<close>

fun truthy :: "json option \<Rightarrow> bool" where
  "truthy None = False"
| "truthy (Some JNull) = False"
| "truthy (Some (JBool b)) = b"
| "truthy (Some (JNum r)) = (r \<noteq> 0)"
| "truthy (Some (JStr s)) = (s \<noteq> [])"
| "truthy (Some (JArr xs)) = True"
| "truthy (Some (JObj kvs)) = True"

text \<open>\<open>typeof v === 'object'\<close>: true of objects, arrays and \<open>null\<close>.\<close>

fun typeofObject :: "json option \<Rightarrow> bool" where
  "typeofObject (Some JNull) = True"
| "typeofObject (Some (JArr xs)) = True"
| "typeofObject (Some (JObj kvs)) = True"
| "typeofObject v = False"

text \<open>
  The property reads \<open>data.version\<close> and \<open>data.days\<close>: a TypeError on \<open>null\<close>, the entry of
  an object, and \<open>undefined\<close> on every other value (an array has neither property).
\<close>

fun jsProp :: "json \<Rightarrow> string \<Rightarrow> jsError + json option" where
  "jsProp JNull k = Inl TypeError"
| "jsProp (JObj kvs) k = Inr (map_of kvs k)"
| "jsProp v k = Inr None"

fun activityName :: "activity \<Rightarrow> string" where
  "activityName Active = ''active''"
| "activityName Inactive = ''inactive''"
| "activityName May_be_inactive = ''may_be_inactive''"

text \<open>The typed store as the JavaScript object that \<open>JSON.stringify\<close> receives; an absent
  \<open>appWindow\<close> is an absent property.\<close>

definition jsonOfHeartbeatData :: "heartbeatData \<Rightarrow> json" where
  "jsonOfHeartbeatData d =
     JObj ((''userActivity'', JStr (activityName (userActivity d))) #
           (case appWindow d of None \<Rightarrow> []
            | Some w \<Rightarrow> [(''appWindow'', JObj [(''app'', JStr (app w)), (''title'', JStr (title w))])]))"

definition jsonOfHeartbeat :: "heartbeat \<Rightarrow> json" where
  "jsonOfHeartbeat hb =
     JObj [(''timestamp'', JNum (of_int (timestamp hb))), (''data'', jsonOfHeartbeatData (data hb))]"

definition jsonOfDayData :: "dayData \<Rightarrow> json" where
  "jsonOfDayData d = JObj [(''heartbeats'', JArr (map jsonOfHeartbeat (heartbeats d)))]"

definition jsonOfStoreData :: "storeData \<Rightarrow> json" where
  "jsonOfStoreData st =
     JObj [(''version'', JNum (of_int (version st))),
           (''lastCleanupTime'', JNum (of_int (lastCleanupTime st))),
           (''startTime'', JNum (of_int (startTime st))),
           (''aggregationInterval'', JNum (of_int (aggregationInterval st))),
           (''days'', JObj (map (\<lambda>(k, d). (k, jsonOfDayData d)) (days st)))]"

section \<open>JSON text: JSON.stringify and JSON.parse on the values of the store\<close>

text \<open>The white space that \<open>JSON.parse\<close> skips: space, line feed, tab and carriage return.\<close>

definition isWs :: "char \<Rightarrow> bool" where
  "isWs c \<longleftrightarrow> c = CHR '' '' \<or> c = CHR 0x0A \<or> c = CHR 0x09 \<or> c = CHR 0x0D"

definition skipWs :: "string \<Rightarrow> string" where
  "skipWs = dropWhile isWs"

text \<open>The indentation of \<open>JSON.stringify(data, null, 2)\<close>: two spaces for each level.\<close>

definition indent :: "nat \<Rightarrow> string" where
  "indent n = replicate n CHR '' ''"

definition isControl :: "char \<Rightarrow> bool" where
  "isControl c \<longleftrightarrow> (of_char c :: nat) < 32"

text \<open>A hexadecimal digit as \<open>JSON.stringify\<close> writes it, in lower case, and as \<open>JSON.parse\<close>
  reads it, in either case.\<close>

definition hexChar :: "nat \<Rightarrow> char" where
  "hexChar d = (if d < 10 then char_of (48 + d) else char_of (87 + d))"

definition hexValue :: "char \<Rightarrow> nat option" where
  "hexValue c =
     (let n = (of_char c :: nat)
      in if 48 \<le> n \<and> n \<le> 57 then Some (n - 48)
         else if 97 \<le> n \<and> n \<le> 102 then Some (n - 87)
         else if 65 \<le> n \<and> n \<le> 70 then Some (n - 55)
         else None)"

text \<open>The escapes that \<open>JSON.stringify\<close> writes in a string: the double quote, the backslash, the
  control characters with a short form, and the \<open>\\u00XX\<close> form for the other control
  characters.\<close>

definition escapeChar :: "char \<Rightarrow> string" where
  "escapeChar c =
     (if c = CHR 0x22 then [CHR 0x5C, CHR 0x22]
      else if c = CHR 0x5C then [CHR 0x5C, CHR 0x5C]
      else if c = CHR 0x0A then [CHR 0x5C, CHR ''n'']
      else if c = CHR 0x0D then [CHR 0x5C, CHR ''r'']
      else if c = CHR 0x09 then [CHR 0x5C, CHR ''t'']
      else if c = CHR 0x08 then [CHR 0x5C, CHR ''b'']
      else if c = CHR 0x0C then [CHR 0x5C, CHR ''f'']
      else if isControl c then
        [CHR 0x5C, CHR ''u'', CHR ''0'', CHR ''0'',
         hexChar ((of_char c :: nat) div 16), hexChar ((of_char c :: nat) mod 16)]
      else [c])"

definition quote :: "string \<Rightarrow> string" where
  "quote s = CHR 0x22 # concat (map escapeChar s) @ [CHR 0x22]"

text \<open>The short escapes that \<open>JSON.parse\<close> reads.\<close>

definition unescapeChar :: "char \<Rightarrow> char option" where
  "unescapeChar e =
     (if e = CHR 0x22 then Some (CHR 0x22)
      else if e = CHR 0x5C then Some (CHR 0x5C)
      else if e = CHR ''/'' then Some (CHR ''/'')
      else if e = CHR ''n'' then Some (CHR 0x0A)
      else if e = CHR ''r'' then Some (CHR 0x0D)
      else if e = CHR ''t'' then Some (CHR 0x09)
      else if e = CHR ''b'' then Some (CHR 0x08)
      else if e = CHR ''f'' then Some (CHR 0x0C)
      else None)"

text \<open>The code unit of a \<open>\\uXXXX\<close> escape, \<open>None\<close> when one of the four is not a hexadecimal
  digit.\<close>

definition hexCode :: "char \<Rightarrow> char \<Rightarrow> char \<Rightarrow> char \<Rightarrow> nat option" where
  "hexCode h1 h2 h3 h4 =
     (case (hexValue h1, hexValue h2, hexValue h3, hexValue h4) of
        (Some a, Some b, Some c, Some d) \<Rightarrow> Some (((a * 16 + b) * 16 + c) * 16 + d)
      | _ \<Rightarrow> None)"

text \<open>The characters of a string up to its closing quote; a raw control character is a syntax
  error. A character is a code unit below 256 here, and an escape for a greater one is not
  read.\<close>

fun parseChars :: "string \<Rightarrow> (string \<times> string) option" where
  "parseChars [] = None"
| "parseChars (c # cs) =
     (if c = CHR 0x22 then Some ([], cs)
      else if c = CHR 0x5C then
        (case cs of
           [] \<Rightarrow> None
         | e # cs' \<Rightarrow>
             if e = CHR ''u'' then
               (case cs' of
                  h1 # h2 # h3 # h4 # cs'' \<Rightarrow>
                    (case hexCode h1 h2 h3 h4 of
                       None \<Rightarrow> None
                     | Some n \<Rightarrow>
                         if n < 256
                         then (case parseChars cs'' of
                                 None \<Rightarrow> None
                               | Some (s, r) \<Rightarrow> Some (char_of n # s, r))
                         else None)
                | _ \<Rightarrow> None)
             else
               (case unescapeChar e of
                  None \<Rightarrow> None
                | Some x \<Rightarrow> (case parseChars cs' of None \<Rightarrow> None | Some (s, r) \<Rightarrow> Some (x # s, r))))
      else if isControl c then None
      else (case parseChars cs of None \<Rightarrow> None | Some (s, r) \<Rightarrow> Some (c # s, r)))"

definition digitChar :: "nat \<Rightarrow> char" where
  "digitChar d = char_of (48 + d)"

definition isDecimal :: "char \<Rightarrow> bool" where
  "isDecimal c \<longleftrightarrow> 48 \<le> (of_char c :: nat) \<and> (of_char c :: nat) \<le> 57"

text \<open>The decimal digits of a natural number, and the text of an integer.\<close>

function digitsOf :: "nat \<Rightarrow> string" where
  "digitsOf n = (if n < 10 then [digitChar n] else digitsOf (n div 10) @ [digitChar (n mod 10)])"
  by pat_completeness auto
termination
  by (relation "measure id") auto

declare digitsOf.simps [simp del]

definition showInt :: "int \<Rightarrow> string" where
  "showInt i = (if i < 0 then CHR ''-'' # digitsOf (nat (- i)) else digitsOf (nat i))"

definition natOfDigits :: "string \<Rightarrow> nat" where
  "natOfDigits ds = foldl (\<lambda>a c. 10 * a + (of_char c - 48)) 0 ds"

text \<open>A number token: an integer without leading zeros; a fraction or an exponent is outside the
  fragment.\<close>

definition parseNumber :: "string \<Rightarrow> (int \<times> string) option" where
  "parseNumber s =
     (let neg = (s \<noteq> [] \<and> hd s = CHR ''-'');
          s' = (if neg then tl s else s);
          ds = takeWhile isDecimal s';
          rest = dropWhile isDecimal s'
      in if ds = [] \<or> (length ds > 1 \<and> hd ds = CHR ''0'') then None
         else if rest \<noteq> [] \<and> hd rest \<in> {CHR ''.'', CHR ''e'', CHR ''E''} then None
         else Some (if neg then - int (natOfDigits ds) else int (natOfDigits ds), rest))"

text \<open>Where a number token ends: at the end of the text or before a character that cannot
  continue it.\<close>

definition numberEnd :: "string \<Rightarrow> bool" where
  "numberEnd rest \<longleftrightarrow> rest = [] \<or> (\<not> isDecimal (hd rest) \<and> hd rest \<notin> {CHR ''.'', CHR ''e'', CHR ''E''})"

text \<open>\<open>JSON.stringify(data, null, 2)\<close> at indentation \<open>n\<close>: one item or member on each line,
  indented by two more spaces, and \<open>[]\<close> and \<open>{}\<close> for the empty array and object. A number is
  written as the integer it is.\<close>

fun stringifyValue :: "nat \<Rightarrow> json \<Rightarrow> string"
  and stringifyItems :: "nat \<Rightarrow> json list \<Rightarrow> string"
  and stringifyMembers :: "nat \<Rightarrow> (string \<times> json) list \<Rightarrow> string" where
  "stringifyValue n JNull = ''null''"
| "stringifyValue n (JBool b) = (if b then ''true'' else ''false'')"
| "stringifyValue n (JNum r) = showInt \<lfloor>r\<rfloor>"
| "stringifyValue n (JStr s) = quote s"
| "stringifyValue n (JArr xs) =
     (if xs = [] then ''[]''
      else CHR ''['' # CHR 0x0A # stringifyItems (n + 2) xs @ CHR 0x0A # indent n @ '']'')"
| "stringifyValue n (JObj kvs) =
     (if kvs = [] then ''{}''
      else CHR ''{'' # CHR 0x0A # stringifyMembers (n + 2) kvs @ CHR 0x0A # indent n @ ''}'')"
| "stringifyItems m [] = []"
| "stringifyItems m [x] = indent m @ stringifyValue m x"
| "stringifyItems m (x # y # ys) =
     indent m @ stringifyValue m x @ CHR '','' # CHR 0x0A # stringifyItems m (y # ys)"
| "stringifyMembers m [] = []"
| "stringifyMembers m [(k, v)] = indent m @ quote k @ '': '' @ stringifyValue m v"
| "stringifyMembers m ((k, v) # y # ys) =
     indent m @ quote k @ '': '' @ stringifyValue m v @ CHR '','' # CHR 0x0A # stringifyMembers m (y # ys)"

text \<open>\<open>JSON.parse\<close> by recursive descent. The first argument bounds the number of calls, and
  \<open>parseJson\<close> starts it with the length of the text; the result is the value with the rest
  of the text, \<open>None\<close> on a syntax error. Members stay in the order of the text.\<close>

fun parseValue :: "nat \<Rightarrow> string \<Rightarrow> (json \<times> string) option"
  and parseElements :: "nat \<Rightarrow> string \<Rightarrow> (json list \<times> string) option"
  and parseMembers :: "nat \<Rightarrow> string \<Rightarrow> ((string \<times> json) list \<times> string) option" where
  "parseValue 0 s = None"
| "parseValue (Suc f) s =
     (case skipWs s of
        [] \<Rightarrow> None
      | c # cs \<Rightarrow>
          if c = CHR ''n'' then (if take 3 cs = ''ull'' then Some (JNull, drop 3 cs) else None)
          else if c = CHR ''t'' then (if take 3 cs = ''rue'' then Some (JBool True, drop 3 cs) else None)
          else if c = CHR ''f'' then (if take 4 cs = ''alse'' then Some (JBool False, drop 4 cs) else None)
          else if c = CHR 0x22 then
            (case parseChars cs of None \<Rightarrow> None | Some (str, r) \<Rightarrow> Some (JStr str, r))
          else if c = CHR ''['' then
            (case skipWs cs of
               [] \<Rightarrow> None
             | d # r \<Rightarrow>
                 if d = CHR '']'' then Some (JArr [], r)
                 else (case parseElements f cs of None \<Rightarrow> None | Some (xs, r') \<Rightarrow> Some (JArr xs, r')))
          else if c = CHR ''{'' then
            (case skipWs cs of
               [] \<Rightarrow> None
             | d # r \<Rightarrow>
                 if d = CHR ''}'' then Some (JObj [], r)
                 else (case parseMembers f cs of None \<Rightarrow> None | Some (kvs, r') \<Rightarrow> Some (JObj kvs, r')))
          else (case parseNumber (c # cs) of None \<Rightarrow> None | Some (i, r) \<Rightarrow> Some (JNum (of_int i), r)))"
| "parseElements 0 s = None"
| "parseElements (Suc f) s =
     (case parseValue f s of
        None \<Rightarrow> None
      | Some (x, r) \<Rightarrow>
          (case skipWs r of
             [] \<Rightarrow> None
           | d # r' \<Rightarrow>
               if d = CHR '','' then
                 (case parseElements f r' of None \<Rightarrow> None | Some (xs, r'') \<Rightarrow> Some (x # xs, r''))
               else if d = CHR '']'' then Some ([x], r')
               else None))"
| "parseMembers 0 s = None"
| "parseMembers (Suc f) s =
     (case skipWs s of
        [] \<Rightarrow> None
      | q # cs \<Rightarrow>
          if q \<noteq> CHR 0x22 then None
          else (case parseChars cs of
                  None \<Rightarrow> None
                | Some (k, r) \<Rightarrow>
                    (case skipWs r of
                       [] \<Rightarrow> None
                     | colon # r1 \<Rightarrow>
                         if colon \<noteq> CHR '':'' then None
                         else (case parseValue f r1 of
                                 None \<Rightarrow> None
                               | Some (v, r2) \<Rightarrow>
                                   (case skipWs r2 of
                                      [] \<Rightarrow> None
                                    | d # r3 \<Rightarrow>
                                        if d = CHR '','' then
                                          (case parseMembers f r3 of
                                             None \<Rightarrow> None
                                           | Some (kvs, r4) \<Rightarrow> Some ((k, v) # kvs, r4))
                                        else if d = CHR ''}'' then Some ([(k, v)], r3)
                                        else None)))))"

definition stringifyJson :: "json \<Rightarrow> string" where
  "stringifyJson v = stringifyValue 0 v"

definition parseJson :: "string \<Rightarrow> json option" where
  "parseJson s =
     (case parseValue (length s) s of
        None \<Rightarrow> None
      | Some (v, r) \<Rightarrow> if skipWs r = [] then Some v else None)"

text \<open>The number of calls that reading a value back takes.\<close>

fun fuel :: "json \<Rightarrow> nat"
  and fuelItems :: "json list \<Rightarrow> nat"
  and fuelMembers :: "(string \<times> json) list \<Rightarrow> nat" where
  "fuel (JArr xs) = Suc (fuelItems xs)"
| "fuel (JObj kvs) = Suc (fuelMembers kvs)"
| "fuel v = 1"
| "fuelItems [] = 0"
| "fuelItems (x # xs) = Suc (fuel x + fuelItems xs)"
| "fuelMembers [] = 0"
| "fuelMembers ((k, v) # kvs) = Suc (fuel v + fuelMembers kvs)"

text \<open>The numbers that a double holds exactly and that are written without an exponent.\<close>

definition safeInteger :: "real \<Rightarrow> bool" where
  "safeInteger r \<longleftrightarrow> r = of_int \<lfloor>r\<rfloor> \<and> \<bar>\<lfloor>r\<rfloor>\<bar> \<le> 9007199254740991"

text \<open>JSON-representable content: numbers that are safe integers, and objects
  without a repeated key and without a key made of digits alone (an object enumerates its array
  indices first, in numeric order, whatever the order of the text).\<close>

fun representable :: "json \<Rightarrow> bool"
  and representableItems :: "json list \<Rightarrow> bool"
  and representableMembers :: "(string \<times> json) list \<Rightarrow> bool" where
  "representable JNull = True"
| "representable (JBool b) = True"
| "representable (JNum r) = safeInteger r"
| "representable (JStr s) = True"
| "representable (JArr xs) = representableItems xs"
| "representable (JObj kvs) = representableMembers kvs"
| "representableItems [] = True"
| "representableItems (x # xs) = (representable x \<and> representableItems xs)"
| "representableMembers [] = True"
| "representableMembers ((k, v) # kvs) =
     (\<not> (k \<noteq> [] \<and> list_all isDecimal k) \<and> k \<notin> fst ` set kvs \<and>
      representable v \<and> representableMembers kvs)"

text \<open>What follows a value in the text that is written: the end, a comma or a line feed; and
  the characters a value starts with.\<close>

definition valueEnd :: "string \<Rightarrow> bool" where
  "valueEnd rest \<longleftrightarrow> rest = [] \<or> hd rest = CHR '','' \<or> hd rest = CHR 0x0A"

definition valueStart :: "char \<Rightarrow> bool" where
  "valueStart c \<longleftrightarrow>
     c \<in> {CHR ''n'', CHR ''t'', CHR ''f'', CHR 0x22, CHR ''['', CHR ''{'', CHR ''-''} \<or> isDecimal c"

section \<open>The platform: Node's path, fs and JSON, Electron's app, Date.parse\<close>

text \<open>
  What the code calls but does not define is a parameter: \<open>path.join\<close>, \<open>path.dirname\<close>,
  \<open>app.getPath('userData')\<close>, \<open>JSON.parse\<close> (\<open>None\<close> when it throws), \<open>JSON.stringify\<close>,
  \<open>Date.parse\<close> (\<open>None\<close> for NaN) and the unchecked cast \<open>as StoreData\<close> of a parsed value.
\<close>

record platform =
  pathJoin :: "string \<Rightarrow> string \<Rightarrow> string"
  pathDirname :: "string \<Rightarrow> string"
  userDataPath :: string
  jsonParse :: "string \<Rightarrow> json option"
  jsonStringify :: "json \<Rightarrow> string"
  dateParse :: "string \<Rightarrow> int option"
  asStoreData :: "json \<Rightarrow> storeData"

text \<open>
  A file system: the regular files with their contents, the directories, and the paths on
  which reading, writing (or creating) and unlinking fail.
\<close>

record fileSystem =
  files :: "string \<rightharpoonup> string"
  dirs :: "string set"
  readFails :: "string set"
  writeFails :: "string set"
  unlinkFails :: "string set"

text \<open>
  The calls of Node's \<open>fs\<close> module on this state. \<open>existsSync\<close> never throws; the others
  throw (\<open>Inl\<close>) on a path set to fail, and also on a missing file (read, unlink) and on a
  directory in place of the file (write).
\<close>

definition existsSync :: "fileSystem \<Rightarrow> string \<Rightarrow> bool" where
  "existsSync fs p \<longleftrightarrow> files fs p \<noteq> None \<or> p \<in> dirs fs"

text \<open>
  The ancestors of a directory, nearest first: \<open>path.dirname\<close> applied until it returns its
  argument, at most as many times as the path has characters.
\<close>

fun pathAncestors :: "platform \<Rightarrow> nat \<Rightarrow> string \<Rightarrow> string list" where
  "pathAncestors p 0 d = []"
| "pathAncestors p (Suc n) d =
     (let up = pathDirname p d in if up = d then [] else up # pathAncestors p n up)"

text \<open>
  \<^verbatim>\<open>fs.mkdirSync(dir, { recursive: true })\<close>: the directory and its missing ancestors are
  created; the call throws when one of them cannot be created or is a regular file.
\<close>

definition mkdirSync :: "platform \<Rightarrow> fileSystem \<Rightarrow> string \<Rightarrow> jsError + fileSystem" where
  "mkdirSync p fs d =
     (let missing = filter (\<lambda>x. x \<notin> dirs fs) (d # pathAncestors p (length d) d)
      in if list_ex (\<lambda>x. x \<in> writeFails fs \<or> files fs x \<noteq> None) missing then Inl IoError
         else Inr (fs\<lparr>dirs := dirs fs \<union> set missing\<rparr>))"

definition readFileSync :: "fileSystem \<Rightarrow> string \<Rightarrow> jsError + string" where
  "readFileSync fs p =
     (case files fs p of None \<Rightarrow> Inl IoError
      | Some c \<Rightarrow> if p \<in> readFails fs then Inl IoError else Inr c)"

definition writeFileSync :: "fileSystem \<Rightarrow> string \<Rightarrow> string \<Rightarrow> jsError + fileSystem" where
  "writeFileSync fs p c =
     (if p \<in> writeFails fs \<or> p \<in> dirs fs then Inl IoError
      else Inr (fs\<lparr>files := (files fs)(p \<mapsto> c)\<rparr>))"

definition unlinkSync :: "fileSystem \<Rightarrow> string \<Rightarrow> jsError + fileSystem" where
  "unlinkSync fs p =
     (if files fs p = None \<or> p \<in> unlinkFails fs then Inl IoError
      else Inr (fs\<lparr>files := (files fs)(p := None)\<rparr>))"

text \<open>A platform whose \<open>JSON.stringify\<close> (with the indentation of 2 that \<open>saveData\<close> asks for)
  and \<open>JSON.parse\<close> are the functions of the previous section.\<close>

definition nodeJson :: "platform \<Rightarrow> platform" where
  "nodeJson p = p\<lparr>jsonParse := parseJson, jsonStringify := stringifyJson\<rparr>"

section \<open>The persistence adapter (storage/StorageAdapter.ts)\<close>

text \<open>\<open>validateStoreData\<close>: the three tests of the \<open>||\<close> chain, in order.\<close>

definition validateStoreData :: "json \<Rightarrow> jsError + bool" where
  "validateStoreData d =
     (case jsProp d ''version'' of
        Inl e \<Rightarrow> Inl e
      | Inr v \<Rightarrow>
          if \<not> truthy v then Inr False
          else (case jsProp d ''days'' of
                  Inl e \<Rightarrow> Inl e
                | Inr ds \<Rightarrow>
                    if \<not> truthy ds then Inr False
                    else if \<not> typeofObject ds then Inr False
                    else Inr True))"

text \<open>
  The body of the \<open>try\<close> block of \<open>loadData\<close>. A thrown exception is \<open>Inl\<close>, paired with
  the file system as it was when the exception was thrown.
\<close>

definition loadDataTry :: "platform \<Rightarrow> fileSystem \<Rightarrow> string \<Rightarrow> (jsError + json option) \<times> fileSystem" where
  "loadDataTry p fs filePath =
     (let dirPath = pathDirname p filePath in
      case (if \<not> existsSync fs dirPath then mkdirSync p fs dirPath else Inr fs) of
        Inl e \<Rightarrow> (Inl e, fs)
      | Inr fs1 \<Rightarrow>
          if \<not> existsSync fs1 filePath then (Inr None, fs1)
          else (case readFileSync fs1 filePath of
                  Inl e \<Rightarrow> (Inl e, fs1)
                | Inr content \<Rightarrow>
                    (case jsonParse p content of
                       None \<Rightarrow> (Inl SyntaxError, fs1)
                     | Some parsedData \<Rightarrow>
                         if \<not> truthy (Some parsedData) \<or> \<not> typeofObject (Some parsedData)
                         then (Inr None, fs1)
                         else (case validateStoreData parsedData of
                                 Inl e \<Rightarrow> (Inl e, fs1)
                               | Inr ok \<Rightarrow> if \<not> ok then (Inr None, fs1)
                                           else (Inr (Some parsedData), fs1)))))"

text \<open>\<open>loadData\<close>: the guard on the path, then the \<open>try\<close> block with its \<open>catch\<close>, which
  turns every exception into the result \<open>null\<close>.\<close>

definition loadData :: "platform \<Rightarrow> fileSystem \<Rightarrow> string \<Rightarrow> (jsError + json option) \<times> fileSystem" where
  "loadData p fs filePath =
     (if filePath = [] then (Inr None, fs)
      else (case loadDataTry p fs filePath of
              (Inl e, fs') \<Rightarrow> (Inr None, fs')
            | (Inr r, fs') \<Rightarrow> (Inr r, fs')))"

definition saveDataTry :: "platform \<Rightarrow> fileSystem \<Rightarrow> string \<Rightarrow> json \<Rightarrow> (jsError + bool) \<times> fileSystem" where
  "saveDataTry p fs filePath d =
     (let dirPath = pathDirname p filePath in
      case (if \<not> existsSync fs dirPath then mkdirSync p fs dirPath else Inr fs) of
        Inl e \<Rightarrow> (Inl e, fs)
      | Inr fs1 \<Rightarrow>
          (let jsonData = jsonStringify p d in
           case writeFileSync fs1 filePath jsonData of
             Inl e \<Rightarrow> (Inl e, fs1)
           | Inr fs2 \<Rightarrow> (Inr True, fs2)))"

definition saveData :: "platform \<Rightarrow> fileSystem \<Rightarrow> string \<Rightarrow> json \<Rightarrow> (jsError + bool) \<times> fileSystem" where
  "saveData p fs filePath d =
     (if filePath = [] then (Inr False, fs)
      else (case saveDataTry p fs filePath d of
              (Inl e, fs') \<Rightarrow> (Inr False, fs')
            | (Inr r, fs') \<Rightarrow> (Inr r, fs')))"

text \<open>
  The value that \<open>loadData\<close> is said to accept, in the words of the specification: an object
  whose \<open>version\<close> is truthy and whose \<open>days\<close> is an object, a map from day keys to day data.
\<close>

definition acceptedStoreValue :: "json \<Rightarrow> bool" where
  "acceptedStoreValue v \<longleftrightarrow>
     (case v of
        JObj kvs \<Rightarrow>
          truthy (map_of kvs ''version'') \<and>
          (case map_of kvs ''days'' of Some (JObj ds) \<Rightarrow> True | _ \<Rightarrow> False)
      | _ \<Rightarrow> False)"

text \<open>
  The other value that passes the checks of the code: an object whose \<open>version\<close> is truthy and
  whose \<open>days\<close> is an array, for which \<open>typeof\<close> is \<open>'object'\<close> as well.
\<close>

definition arrayDaysValue :: "json \<Rightarrow> bool" where
  "arrayDaysValue v \<longleftrightarrow>
     (case v of
        JObj kvs \<Rightarrow>
          truthy (map_of kvs ''version'') \<and>
          (case map_of kvs ''days'' of Some (JArr ds) \<Rightarrow> True | _ \<Rightarrow> False)
      | _ \<Rightarrow> False)"

text \<open>The checks of \<open>loadData\<close> on a parsed value, taken together.\<close>

definition passesChecks :: "json \<Rightarrow> jsError + json option" where
  "passesChecks v =
     (if \<not> truthy (Some v) \<or> \<not> typeofObject (Some v) then Inr None
      else (case validateStoreData v of Inl e \<Rightarrow> Inl e
            | Inr ok \<Rightarrow> if \<not> ok then Inr None else Inr (Some v)))"

section \<open>The storage manager (storage/ActivityStorage.ts)\<close>

record storageOptions =
  useMockData :: bool
  storagePath :: "string option"

text \<open>
  An \<open>ActivityStorage\<close> instance. \<open>persistence\<close> is the file path held by its
  \<open>StorageAdapter\<close>; the settings manager is not among the sources and its state is a type
  parameter.
\<close>

record 's activityStorage =
  options :: storageOptions
  dataFilePath :: string
  persistence :: string
  activityState :: storeData
  settingsManager :: 's

definition saveToDisk :: "platform \<Rightarrow> 's activityStorage \<Rightarrow> fileSystem \<Rightarrow> fileSystem" where
  "saveToDisk p s fs =
     (if useMockData (options s) then fs
      else (case saveData p fs (persistence s) (jsonOfStoreData (getFullStoreData (activityState s))) of
              (Inl e, fs') \<Rightarrow> fs'
            | (Inr r, fs') \<Rightarrow> fs'))"

definition isDigit :: "char \<Rightarrow> bool" where
  "isDigit c \<longleftrightarrow> c \<in> set ''0123456789''"

text \<open>The test \<^verbatim>\<open>/^\d{4}-\d{2}-\d{2}$/\<close>.\<close>

definition matchesDateKey :: "string \<Rightarrow> bool" where
  "matchesDateKey k \<longleftrightarrow>
     length k = 10 \<and> list_all isDigit (take 4 k) \<and> k ! 4 = CHR ''-'' \<and>
     list_all isDigit (take 2 (drop 5 k)) \<and> k ! 7 = CHR ''-'' \<and> list_all isDigit (drop 8 k)"

text \<open>
  \<open>getDayData\<close>. \<open>getDateKey\<close> is the method of the date manager, which is not among the
  sources. The method reads the clock twice: \<open>now1\<close> is the reading of \<open>Date.now()\<close> behind the
  default key, taken when no key is given, and \<open>now2\<close> the later reading behind today's key.
  \<open>dateKey || \<dots>\<close> falls back to the default key for \<open>undefined\<close>, \<open>null\<close> and the empty string
  alike.
\<close>

definition getDayData ::
  "(int \<Rightarrow> string) \<Rightarrow> int \<Rightarrow> int \<Rightarrow> 's activityStorage \<Rightarrow> string option \<Rightarrow> dayData option" where
  "getDayData getDateKey now1 now2 s dateKey =
     (let targetDateKey = (case dateKey of None \<Rightarrow> getDateKey now1
                           | Some k \<Rightarrow> if k \<noteq> [] then k else getDateKey now1);
          todayDateKey = getDateKey now2
      in if \<not> matchesDateKey targetDateKey then None
         else (case getHeartbeats (activityState s) targetDateKey of
                 None \<Rightarrow> if targetDateKey = todayDateKey then Some \<lparr>heartbeats = []\<rparr> else None
               | Some dayHeartbeats \<Rightarrow>
                   if dayHeartbeats = []
                   then (if targetDateKey = todayDateKey then Some \<lparr>heartbeats = []\<rparr> else None)
                   else Some \<lparr>heartbeats = dayHeartbeats\<rparr>))"

definition addHeartbeat ::
  "int \<Rightarrow> heartbeatData \<Rightarrow> string \<Rightarrow> 's activityStorage \<Rightarrow> 's activityStorage" where
  "addHeartbeat ts heartbeatData dateKey s =
     (let dayHeartbeats = (case getHeartbeats (activityState s) dateKey of None \<Rightarrow> [] | Some hs \<Rightarrow> hs);
          newHeartbeat = \<lparr>timestamp = ts, data = heartbeatData\<rparr>
      in if userActivity heartbeatData = Inactive
         then (let updatedHeartbeats = handleMayBeInactive dayHeartbeats ts heartbeatData
               in s\<lparr>activityState := setHeartbeats dateKey (updatedHeartbeats @ [newHeartbeat]) (activityState s)\<rparr>)
         else s\<lparr>activityState := setHeartbeats dateKey (dayHeartbeats @ [newHeartbeat]) (activityState s)\<rparr>)"

text \<open>\<open>getDatesOlderThan\<close>: the keys, in the order of \<open>getAvailableDates\<close>, whose UTC midnight
  parses to a number below the threshold.\<close>

definition getDatesOlderThan :: "platform \<Rightarrow> 's activityStorage \<Rightarrow> int \<Rightarrow> string list" where
  "getDatesOlderThan p s timestampThreshold =
     filter (\<lambda>dateKey. case dateParse p (dateKey @ ''T00:00:00Z'') of
                          None \<Rightarrow> False
                        | Some dateTimestamp \<Rightarrow> dateTimestamp < timestampThreshold)
            (getAvailableDates (activityState s))"

text \<open>\<open>utcMidnightBefore p cutoff dateKey\<close>: the key's UTC midnight, as \<open>Date.parse\<close> reads it, is a
  number strictly below \<open>cutoff\<close>.\<close>

definition utcMidnightBefore :: "platform \<Rightarrow> int \<Rightarrow> string \<Rightarrow> bool" where
  "utcMidnightBefore p cutoff dateKey \<longleftrightarrow>
     (case dateParse p (dateKey @ ''T00:00:00Z'') of None \<Rightarrow> False | Some ts \<Rightarrow> ts < cutoff)"

definition oneDayMs :: int where
  "oneDayMs = 24 * 60 * 60 * 1000"

text \<open>
  \<open>cleanupOldData\<close> on the storage manager and the file system. \<open>now\<close> is the reading of
  \<open>Date.now()\<close> at the start of the call, \<open>now'\<close> the reading that
  \<open>updateLastCleanupTime\<close> records.
\<close>

definition cleanupOldData ::
  "platform \<Rightarrow> int \<Rightarrow> int \<Rightarrow> 's activityStorage \<Rightarrow> fileSystem \<Rightarrow> 's activityStorage \<times> fileSystem" where
  "cleanupOldData p now now' s fs =
     (if useMockData (options s) then (s, fs)
      else if getLastCleanupTime (activityState s) > now - oneDayMs then (s, fs)
      else
        (let thirtyDaysAgoTimestamp = now - 30 * oneDayMs;
             datesToDelete = getDatesOlderThan p s thirtyDaysAgoTimestamp
         in if datesToDelete = []
            then (let s1 = s\<lparr>activityState := updateLastCleanupTime now' (activityState s)\<rparr>
                  in (s1, saveToDisk p s1 fs))
            else (let s1 = s\<lparr>activityState := fold deleteDay datesToDelete (activityState s)\<rparr>;
                      s2 = s1\<lparr>activityState := updateLastCleanupTime now' (activityState s1)\<rparr>
                  in (s2, saveToDisk p s2 fs))))"

definition storeFileName :: string where
  "storeFileName = ''chronflow-activity-store.json''"

text \<open>The move of the store file inside \<open>updateStoragePath\<close>: make the directory, read the old
  file, write the new one, unlink the old one when the paths differ.\<close>

definition moveStoreFile ::
  "platform \<Rightarrow> fileSystem \<Rightarrow> string \<Rightarrow> string \<Rightarrow> (jsError + unit) \<times> fileSystem" where
  "moveStoreFile p fs oldFilePath newFilePath =
     (let dirPath = pathDirname p newFilePath in
      case (if \<not> existsSync fs dirPath then mkdirSync p fs dirPath else Inr fs) of
        Inl e \<Rightarrow> (Inl e, fs)
      | Inr fs1 \<Rightarrow>
          (case readFileSync fs1 oldFilePath of
             Inl e \<Rightarrow> (Inl e, fs1)
           | Inr content \<Rightarrow>
               (case writeFileSync fs1 newFilePath content of
                  Inl e \<Rightarrow> (Inl e, fs1)
                | Inr fs2 \<Rightarrow>
                    if oldFilePath \<noteq> newFilePath
                    then (case unlinkSync fs2 oldFilePath of
                            Inl e \<Rightarrow> (Inl e, fs2)
                          | Inr fs3 \<Rightarrow> (Inr (), fs3))
                    else (Inr (), fs2))))"

definition newStoreFilePath :: "platform \<Rightarrow> string option \<Rightarrow> string" where
  "newStoreFilePath p newDirPath =
     (case newDirPath of
        None \<Rightarrow> pathJoin p (userDataPath p) storeFileName
      | Some d \<Rightarrow> if d \<noteq> [] then pathJoin p d storeFileName
                  else pathJoin p (userDataPath p) storeFileName)"

text \<open>
  \<open>updateStoragePath\<close>. \<open>setActivityStoreDirPath\<close> is the method of the settings manager, a
  parameter: it returns or throws, and leaves the settings manager in a new state either
  way. The result is the returned boolean with the storage manager and the file system as
  the call leaves them.
\<close>

definition updateStoragePath ::
  "platform \<Rightarrow> (string option \<Rightarrow> 's \<Rightarrow> (jsError + unit) \<times> 's) \<Rightarrow> string option \<Rightarrow>
   's activityStorage \<Rightarrow> fileSystem \<Rightarrow> bool \<times> 's activityStorage \<times> fileSystem" where
  "updateStoragePath p setActivityStoreDirPath newDirPath s fs =
     (let oldFilePath = dataFilePath s;
          newFilePath = newStoreFilePath p newDirPath;
          fileExistsAtNewPath = existsSync fs newFilePath
      in case (if existsSync fs oldFilePath \<and> \<not> fileExistsAtNewPath
               then moveStoreFile p fs oldFilePath newFilePath else (Inr (), fs)) of
           (Inl e, fs1) \<Rightarrow> (False, s, fs1)
         | (Inr u, fs1) \<Rightarrow>
             (case setActivityStoreDirPath newDirPath (settingsManager s) of
                (Inl e, sm) \<Rightarrow> (False, s\<lparr>settingsManager := sm\<rparr>, fs1)
              | (Inr v, sm) \<Rightarrow>
                  (let s1 = s\<lparr>settingsManager := sm, dataFilePath := newFilePath,
                              persistence := newFilePath\<rparr>
                   in case loadData p fs1 newFilePath of
                        (Inl e, fs2) \<Rightarrow> (False, s1, fs2)
                      | (Inr None, fs2) \<Rightarrow> (True, s1, fs2)
                      | (Inr (Some d), fs2) \<Rightarrow>
                          (True, s1\<lparr>activityState := setData (asStoreData p d) (activityState s1)\<rparr>, fs2))))"

section \<open>The aggregation service (analysis/AggregationService.ts) and the facade\<close>

record aggregationSummary =
  activeTrackingDuration :: int
  totalActiveDuration :: int
  totalInactiveDuration :: int
  totalMeetingDuration :: int
  appUsage :: "(string \<times> int) list"

record 'ev aggregatedData =
  summary :: aggregationSummary
  timelineEvents :: "'ev list"

text \<open>The \<open>DayData\<close> of the aggregation service: heartbeats with timeline events.\<close>

record 'ev aggregatedDayData =
  dayHeartbeats :: "heartbeat list"
  dayTimelineEvents :: "'ev list"

text \<open>
  The timeline generator is not among the sources: its two methods are parameters,
  \<open>generateTimelineEvents\<close> with the generator's current \<open>aggregationInterval\<close> as first
  argument. The type of timeline events is a type parameter.
\<close>

record 'ev timelineGenerator =
  generateTimelineEvents :: "int \<Rightarrow> heartbeat list \<Rightarrow> 'ev list"
  calculateSummary :: "'ev list \<Rightarrow> aggregationSummary"

text \<open>The mutable state of the service: the generator's interval and the cache.\<close>

record 'ev aggregationService =
  generatorInterval :: int
  aggregationCache :: "string \<rightharpoonup> 'ev aggregatedData"

definition clearCache :: "'ev aggregationService \<Rightarrow> 'ev aggregationService" where
  "clearCache svc = svc\<lparr>aggregationCache := Map.empty\<rparr>"

definition setAggregationInterval :: "int \<Rightarrow> 'ev aggregationService \<Rightarrow> 'ev aggregationService" where
  "setAggregationInterval interval svc =
     (if interval \<notin> set [5, 10, 15] then svc
      else clearCache (svc\<lparr>generatorInterval := interval\<rparr>))"

text \<open>\<^verbatim>\<open>this.activityStorage.getDayData(dateKey)?.heartbeats || []\<close>, as the service's three
  methods read the heartbeats of a day; \<open>now1\<close> and \<open>now2\<close> are the clock readings of that call of
  \<open>getDayData\<close>.\<close>

definition storedHeartbeats ::
  "(int \<Rightarrow> string) \<Rightarrow> int \<Rightarrow> int \<Rightarrow> 's activityStorage \<Rightarrow> string \<Rightarrow> heartbeat list" where
  "storedHeartbeats getDateKey now1 now2 s dateKey =
     (case getDayData getDateKey now1 now2 s (Some dateKey) of None \<Rightarrow> [] | Some d \<Rightarrow> heartbeats d)"

definition aggregateDay ::
  "'ev timelineGenerator \<Rightarrow> (int \<Rightarrow> string) \<Rightarrow> int \<Rightarrow> int \<Rightarrow> 's activityStorage \<Rightarrow> string \<Rightarrow>
   'ev aggregationService \<Rightarrow> bool \<times> 'ev aggregationService" where
  "aggregateDay tg getDateKey now1 now2 s dateKey svc =
     (let hs = storedHeartbeats getDateKey now1 now2 s dateKey;
          events = generateTimelineEvents tg (generatorInterval svc) hs;
          aggregated = \<lparr>summary = calculateSummary tg events, timelineEvents = events\<rparr>
      in (True, svc\<lparr>aggregationCache := (aggregationCache svc)(dateKey \<mapsto> aggregated)\<rparr>))"

definition zeroSummary :: aggregationSummary where
  "zeroSummary =
     \<lparr>activeTrackingDuration = 0, totalActiveDuration = 0, totalInactiveDuration = 0,
      totalMeetingDuration = 0, appUsage = []\<rparr>"

definition getAggregatedData ::
  "'ev timelineGenerator \<Rightarrow> (int \<Rightarrow> string) \<Rightarrow> int \<Rightarrow> int \<Rightarrow> 's activityStorage \<Rightarrow> string \<Rightarrow>
   'ev aggregationService \<Rightarrow> 'ev aggregatedData option \<times> 'ev aggregationService" where
  "getAggregatedData tg getDateKey now1 now2 s dateKey svc =
     (case aggregationCache svc dateKey of
        Some cachedData \<Rightarrow> (Some cachedData, svc)
      | None \<Rightarrow>
          (let hs = storedHeartbeats getDateKey now1 now2 s dateKey;
               events = generateTimelineEvents tg (generatorInterval svc) hs;
               aggregated = \<lparr>summary = zeroSummary, timelineEvents = events\<rparr>
           in (Some aggregated, svc\<lparr>aggregationCache := (aggregationCache svc)(dateKey \<mapsto> aggregated)\<rparr>)))"

text \<open>
  \<open>getDayDataWithAggregation\<close> calls \<open>getDayData\<close> of the storage manager itself, with the clock
  readings \<open>now1\<close> and \<open>now2\<close>, and once more inside \<open>getAggregatedData\<close> on a cache miss, with
  the readings \<open>now3\<close> and \<open>now4\<close>.
\<close>

definition getDayDataWithAggregation ::
  "'ev timelineGenerator \<Rightarrow> (int \<Rightarrow> string) \<Rightarrow> int \<Rightarrow> int \<Rightarrow> int \<Rightarrow> int \<Rightarrow>
   's activityStorage \<Rightarrow> string \<Rightarrow>
   'ev aggregationService \<Rightarrow> 'ev aggregatedDayData \<times> 'ev aggregationService" where
  "getDayDataWithAggregation tg getDateKey now1 now2 now3 now4 s dateKey svc =
     (let hs = storedHeartbeats getDateKey now1 now2 s dateKey
      in case getAggregatedData tg getDateKey now3 now4 s dateKey svc of
           (None, svc') \<Rightarrow> (\<lparr>dayHeartbeats = hs, dayTimelineEvents = []\<rparr>, svc')
         | (Some aggregated, svc') \<Rightarrow>
             (\<lparr>dayHeartbeats = hs, dayTimelineEvents = timelineEvents aggregated\<rparr>, svc'))"

text \<open>\<open>ActivityFacade.getDayData\<close>, whose declared result type is \<open>DayData | null\<close>. \<open>now0\<close> is
  the facade's own reading of the clock, taken when no key is given; the other four are the
  readings of \<open>getDayDataWithAggregation\<close>.\<close>

definition facadeGetDayData ::
  "'ev timelineGenerator \<Rightarrow> (int \<Rightarrow> string) \<Rightarrow> int \<Rightarrow> int \<Rightarrow> int \<Rightarrow> int \<Rightarrow> int \<Rightarrow>
   's activityStorage \<Rightarrow> string option \<Rightarrow>
   'ev aggregationService \<Rightarrow> 'ev aggregatedDayData option \<times> 'ev aggregationService" where
  "facadeGetDayData tg getDateKey now0 now1 now2 now3 now4 s dateKey svc =
     (let effectiveDateKey = (case dateKey of None \<Rightarrow> getDateKey now0
                              | Some k \<Rightarrow> if k \<noteq> [] then k else getDateKey now0)
      in case getDayDataWithAggregation tg getDateKey now1 now2 now3 now4 s effectiveDateKey svc of
           (d, svc') \<Rightarrow> (Some d, svc'))"

text \<open>The key the facade passes on: \<open>dateKey || getDateKey(Date.now())\<close>, with the facade's
  reading \<open>now0\<close> of the clock.\<close>

definition effectiveDateKey :: "(int \<Rightarrow> string) \<Rightarrow> int \<Rightarrow> string option \<Rightarrow> string" where
  "effectiveDateKey getDateKey now0 dateKey =
     (case dateKey of None \<Rightarrow> getDateKey now0 | Some k \<Rightarrow> if k \<noteq> [] then k else getDateKey now0)"

text \<open>
  The states of the aggregation service that its methods reach from the empty cache of the
  constructor: whatever the generator's interval, the clock readings, the keys asked for, and
  the states (of the set \<open>S\<close>) in which the storage manager is at each call.
\<close>

inductive reachable ::
  "'ev timelineGenerator \<Rightarrow> (int \<Rightarrow> string) \<Rightarrow> 's activityStorage set \<Rightarrow>
   'ev aggregationService \<Rightarrow> bool"
  for tg :: "'ev timelineGenerator" and getDateKey :: "int \<Rightarrow> string"
    and S :: "'s activityStorage set" where
  constructed:
    "reachable tg getDateKey S \<lparr>generatorInterval = i, aggregationCache = Map.empty\<rparr>"
| cleared:
    "reachable tg getDateKey S svc \<Longrightarrow> reachable tg getDateKey S (clearCache svc)"
| interval_set:
    "reachable tg getDateKey S svc \<Longrightarrow> reachable tg getDateKey S (setAggregationInterval i svc)"
| day_aggregated:
    "reachable tg getDateKey S svc \<Longrightarrow> s \<in> S \<Longrightarrow>
     reachable tg getDateKey S (snd (aggregateDay tg getDateKey now1 now2 s k svc))"
| data_read:
    "reachable tg getDateKey S svc \<Longrightarrow> s \<in> S \<Longrightarrow>
     reachable tg getDateKey S (snd (getAggregatedData tg getDateKey now1 now2 s k svc))"
| day_read:
    "reachable tg getDateKey S svc \<Longrightarrow> s \<in> S \<Longrightarrow>
     reachable tg getDateKey S
       (snd (getDayDataWithAggregation tg getDateKey now1 now2 now3 now4 s k svc))"
| facade_read:
    "reachable tg getDateKey S svc \<Longrightarrow> s \<in> S \<Longrightarrow>
     reachable tg getDateKey S
       (snd (facadeGetDayData tg getDateKey now0 now1 now2 now3 now4 s dateKey svc))"

section \<open>Sample values for the instances\<close>

definition beat :: "int \<Rightarrow> activity \<Rightarrow> heartbeat" where
  "beat t a = \<lparr>timestamp = t, data = \<lparr>userActivity = a, appWindow = None\<rparr>\<rparr>"

definition sampleStore :: "(string \<times> dayData) list \<Rightarrow> storeData" where
  "sampleStore ds =
     \<lparr>version = 1, lastCleanupTime = 0, startTime = 0, aggregationInterval = 15, days = ds\<rparr>"

definition sampleStorage :: "storeData \<Rightarrow> unit activityStorage" where
  "sampleStorage st =
     \<lparr>options = \<lparr>useMockData = False, storagePath = None\<rparr>,
      dataFilePath = ''/data/chronflow-activity-store.json'',
      persistence = ''/data/chronflow-activity-store.json'',
      activityState = st, settingsManager = ()\<rparr>"

definition sampleDocument :: json where
  "sampleDocument = JObj [(''version'', JNum 1), (''days'', JObj [])]"

definition samplePlatform :: platform where
  "samplePlatform =
     \<lparr>pathJoin = (\<lambda>d f. d @ ''/'' @ f),
      pathDirname = (\<lambda>f. let d = rev (tl (dropWhile (\<lambda>c. c \<noteq> CHR ''/'') (rev f)))
                         in if d = [] then ''/'' else d),
      userDataPath = ''/home'',
      jsonParse = (\<lambda>c. if c = ''{version:1,days:{}}'' then Some sampleDocument else None),
      jsonStringify = (\<lambda>j. if j = sampleDocument then ''{version:1,days:{}}'' else ''?''),
      dateParse = (\<lambda>c. if c = ''2024-01-01T00:00:00Z'' then Some 1704067200000
                        else if c = ''2024-05-01T00:00:00Z'' then Some 1714521600000 else None),
      asStoreData = (\<lambda>j. sampleStore [])\<rparr>"

text \<open>A document whose \<open>days\<close> is an array.\<close>

definition sampleArrayDaysDocument :: json where
  "sampleArrayDaysDocument = JObj [(''version'', JBool True), (''days'', JArr [])]"

text \<open>A store with one day of two heartbeats, one of them with its window.\<close>

definition sampleDayStore :: storeData where
  "sampleDayStore =
     \<lparr>version = 1, lastCleanupTime = 1714521600000, startTime = 1714525200000,
      aggregationInterval = 15,
      days = [(''2024-05-01'',
               \<lparr>heartbeats =
                  [\<lparr>timestamp = 1714525230000,
                    data = \<lparr>userActivity = Active,
                            appWindow = Some \<lparr>app = ''Code'', title = ''main.ts''\<rparr>\<rparr>\<rparr>,
                   beat 1714525260000 May_be_inactive]\<rparr>)]\<rparr>"

definition sampleFs :: fileSystem where
  "sampleFs =
     \<lparr>files = Map.empty, dirs = {''/'', ''/data''}, readFails = {}, writeFails = {}, unlinkFails = {}\<rparr>"

definition sampleOldFs :: fileSystem where
  "sampleOldFs = sampleFs\<lparr>files := [''/data/chronflow-activity-store.json'' \<mapsto> ''{version:1,days:{}}'']\<rparr>"

text \<open>A generator for the instances: one event per heartbeat (its timestamp), each counted as
  15 minutes of tracking.\<close>

definition sampleGenerator :: "int timelineGenerator" where
  "sampleGenerator =
     \<lparr>generateTimelineEvents = (\<lambda>interval hs. map timestamp hs),
      calculateSummary = (\<lambda>events. zeroSummary\<lparr>activeTrackingDuration := 900000 * int (length events)\<rparr>)\<rparr>"

definition sampleService :: "int aggregationService" where
  "sampleService = \<lparr>generatorInterval = 15, aggregationCache = Map.empty\<rparr>"

definition sampleOldDayStorage :: "unit activityStorage" where
  "sampleOldDayStorage =
     sampleStorage (sampleStore [(''2024-01-01'', \<lparr>heartbeats = [beat 1704100000000 Active]\<rparr>)])"

section \<open>Properties of the may_be_inactive correction\<close>

lemma timestamp_markInactive [simp]: "timestamp (markInactive hb) = timestamp hb"
  by (simp add: markInactive_def)

lemma appWindow_markInactive [simp]: "appWindow (data (markInactive hb)) = appWindow (data hb)"
  by (simp add: markInactive_def)

lemma userActivity_markInactive [simp]: "userActivity (data (markInactive hb)) = Inactive"
  by (simp add: markInactive_def)

lemma convertLoop_length: "length (fst (convertLoop hs t i c)) = length hs"
proof (induction hs t i c rule: convertLoop.induct)
  case (1 hs t i changed)
  show ?case
    using 1 by (subst convertLoop.simps) (auto simp: Let_def)
qed

lemma reached_update:
  "k < i \<Longrightarrow> reached (hs[k := markInactive (hs ! k)]) t i j = reached hs t i j"
  by (auto simp: reached_def)

lemma reached_step:
  assumes "i < length hs" and "timestamp (hs ! i) < t"
  shows "reached hs t i j \<longleftrightarrow> j = i \<or> reached hs t (Suc i) j"
proof
  assume r: "reached hs t i j"
  show "j = i \<or> reached hs t (Suc i) j"
  proof (cases "j = i")
    case False
    with r have "Suc i \<le> j" by (simp add: reached_def)
    moreover have "\<forall>m. Suc i \<le> m \<and> m \<le> j \<longrightarrow> timestamp (hs ! m) < t"
      using r by (simp add: reached_def)
    ultimately show ?thesis using r by (simp add: reached_def)
  qed simp
next
  assume "j = i \<or> reached hs t (Suc i) j"
  then show "reached hs t i j"
  proof
    assume ji: "j = i"
    have "timestamp (hs ! m) < t" if "i \<le> m \<and> m \<le> i" for m
    proof -
      from that have "m = i" by simp
      then show ?thesis using assms by simp
    qed
    then show ?thesis using assms ji by (simp add: reached_def)
  next
    assume r: "reached hs t (Suc i) j"
    have "timestamp (hs ! m) < t" if "i \<le> m \<and> m \<le> j" for m
    proof (cases "m = i")
      case True
      then show ?thesis using assms by simp
    next
      case False
      with that have "Suc i \<le> m \<and> m \<le> j" by simp
      with r show ?thesis unfolding reached_def by blast
    qed
    then show ?thesis using r by (simp add: reached_def)
  qed
qed

text \<open>What the forward loop leaves at each position.\<close>

lemma convertLoop_nth:
  "j < length hs \<Longrightarrow>
   fst (convertLoop hs t i c) ! j =
     (if reached hs t i j \<and> userActivity (data (hs ! j)) = May_be_inactive
      then markInactive (hs ! j) else hs ! j)"
proof (induction hs t i c arbitrary: j rule: convertLoop.induct)
  case (1 hs t i changed)
  show ?case
  proof (cases "i < length hs")
    case False
    then show ?thesis using 1(3) by (subst convertLoop.simps) (auto simp: reached_def)
  next
    case True
    note iin = this
    show ?thesis
    proof (cases "timestamp (hs ! i) \<ge> t")
      case True
      then have "\<not> reached hs t i j" by (auto simp: reached_def)
      then show ?thesis using iin True by (subst convertLoop.simps) simp
    next
      case False
      note ts = this
      have split: "reached hs t i j \<longleftrightarrow> j = i \<or> reached hs t (i + 1) j"
        using reached_step[OF iin, of t j] ts by simp
      show ?thesis
      proof (cases "userActivity (data (hs ! i)) = May_be_inactive")
        case True
        let ?hs' = "hs[i := markInactive (hs ! i)]"
        have "fst (convertLoop hs t i changed) ! j = fst (convertLoop ?hs' t (i + 1) True) ! j"
          using iin ts True by (subst convertLoop.simps) simp
        also have "\<dots> = (if reached ?hs' t (i + 1) j \<and> userActivity (data (?hs' ! j)) = May_be_inactive
            then markInactive (?hs' ! j) else ?hs' ! j)"
        proof (rule 1(1))
          show "i < length hs" by (rule iin)
          show "\<not> t \<le> timestamp (hs ! i)" by (rule ts)
          show "userActivity (data (hs ! i)) = May_be_inactive" by (rule True)
          show "j < length ?hs'" using 1(3) by simp
        qed
        finally have step: "fst (convertLoop hs t i changed) ! j =
           (if reached hs t (i + 1) j \<and> userActivity (data (?hs' ! j)) = May_be_inactive
            then markInactive (?hs' ! j) else ?hs' ! j)"
          by (simp add: reached_update)
        show ?thesis
        proof (cases "j = i")
          case ji: True
          have "\<not> reached hs t (i + 1) j" using ji by (simp add: reached_def)
          then show ?thesis using step split ji iin True by simp
        next
          case False
          then show ?thesis using step split by simp
        qed
      next
        case False
        have "fst (convertLoop hs t i changed) ! j = fst (convertLoop hs t (i + 1) changed) ! j"
          using iin ts False by (subst convertLoop.simps) simp
        also have "\<dots> = (if reached hs t (i + 1) j \<and> userActivity (data (hs ! j)) = May_be_inactive
            then markInactive (hs ! j) else hs ! j)"
        proof (rule 1(2))
          show "i < length hs" by (rule iin)
          show "\<not> t \<le> timestamp (hs ! i)" by (rule ts)
          show "userActivity (data (hs ! i)) \<noteq> May_be_inactive" by (rule False)
          show "j < length hs" by (rule 1(3))
        qed
        finally show ?thesis using split False by auto
      qed
    qed
  qed
qed

lemma convertLoop_flag: "c \<Longrightarrow> snd (convertLoop hs t i c)"
proof (induction hs t i c rule: convertLoop.induct)
  case (1 hs t i changed)
  then show ?case by (subst convertLoop.simps) auto
qed

lemma convertLoop_unchanged:
  "\<not> snd (convertLoop hs t i c) \<Longrightarrow> fst (convertLoop hs t i c) = hs"
proof (induction hs t i c rule: convertLoop.induct)
  case (1 hs t i changed)
  show ?case
  proof (cases "i < length hs \<and> \<not> timestamp (hs ! i) \<ge> t")
    case False
    then show ?thesis by (subst convertLoop.simps) auto
  next
    case True
    show ?thesis
    proof (cases "userActivity (data (hs ! i)) = May_be_inactive")
      case m: True
      have "snd (convertLoop hs t i changed)"
        using True m convertLoop_flag[of True "hs[i := markInactive (hs ! i)]" t "i + 1"]
        by (subst convertLoop.simps) simp
      with 1(3) show ?thesis by simp
    next
      case m: False
      have eq: "convertLoop hs t i changed = convertLoop hs t (i + 1) changed"
        using True m by (subst convertLoop.simps) simp
      show ?thesis using 1(2) True m 1(3) unfolding eq by auto
    qed
  qed
qed

lemma handleMayBeInactive_length: "length (handleMayBeInactive hs t d) = length hs"
  using convertLoop_length[of hs t "nat (lastActiveLoop hs t (length hs) + 1)" False]
  by (auto simp: handleMayBeInactive_def Let_def split: prod.splits)

text \<open>What the correction leaves at each position, in terms of the loop's start.\<close>

lemma handleMayBeInactive_nth:
  assumes "j < length hs"
  shows "handleMayBeInactive hs t d ! j =
     (if userActivity d = Inactive \<and> reached hs t (nat (lastActiveLoop hs t (length hs) + 1)) j
         \<and> userActivity (data (hs ! j)) = May_be_inactive
      then markInactive (hs ! j) else hs ! j)"
proof -
  let ?k = "nat (lastActiveLoop hs t (length hs) + 1)"
  have nomay: "\<not> list_ex (\<lambda>hb. userActivity (data hb) = May_be_inactive) hs \<Longrightarrow>
      userActivity (data (hs ! j)) \<noteq> May_be_inactive"
    using assms by (auto simp: list_ex_iff)
  have unch: "\<not> snd (convertLoop hs t ?k False) \<Longrightarrow> fst (convertLoop hs t ?k False) ! j = hs ! j"
    using convertLoop_unchanged[of hs t ?k False] by simp
  show ?thesis
    using nomay unch convertLoop_nth[OF assms, of t ?k False] assms
    by (auto simp: handleMayBeInactive_def Let_def split: prod.splits)
qed

lemma lastActiveLoop_bounds: "-1 \<le> lastActiveLoop hs t n \<and> lastActiveLoop hs t n < int n"
  by (induction n) auto

lemma lastActiveLoop_found:
  "0 \<le> lastActiveLoop hs t n \<Longrightarrow>
   timestamp (hs ! nat (lastActiveLoop hs t n)) < t \<and>
   userActivity (data (hs ! nat (lastActiveLoop hs t n))) = Active"
  by (induction n) (auto split: if_splits)

lemma lastActiveLoop_later:
  "lastActiveLoop hs t n < int m \<Longrightarrow> m < n \<Longrightarrow>
   \<not> (timestamp (hs ! m) < t \<and> userActivity (data (hs ! m)) = Active)"
proof (induction n)
  case 0
  then show ?case by simp
next
  case (Suc n)
  then show ?case
    using lastActiveLoop_bounds[of hs t n] by (cases "m = n") (auto split: if_splits)
qed

lemma lastActiveLoop_cong:
  "\<forall>i<n. timestamp (hs ! i) = timestamp (hs' ! i) \<and>
     (userActivity (data (hs ! i)) = Active \<longleftrightarrow> userActivity (data (hs' ! i)) = Active) \<Longrightarrow>
   lastActiveLoop hs t n = lastActiveLoop hs' t n"
  by (induction n) auto

text \<open>The backward search returns the position of the last active heartbeat before \<open>t\<close>.\<close>

lemma lastActiveLoop_is_last: "lastActiveBefore hs t (lastActiveLoop hs t (length hs))"
proof -
  let ?a = "lastActiveLoop hs t (length hs)"
  have b: "-1 \<le> ?a \<and> ?a < int (length hs)" by (rule lastActiveLoop_bounds)
  have 1: "?a = -1 \<or> (0 \<le> ?a \<and> activeBefore hs t (nat ?a))"
    using b lastActiveLoop_found[of hs t "length hs"] by (auto simp: activeBefore_def)
  have 2: "\<not> activeBefore hs t m" if "?a < int m" for m
    using lastActiveLoop_later[OF that] by (auto simp: activeBefore_def)
  show ?thesis using 1 2 by (simp add: lastActiveBefore_def)
qed

lemma lastActiveBefore_unique:
  assumes "lastActiveBefore hs t a" "lastActiveBefore hs t b"
  shows "a = b"
proof (rule ccontr)
  assume ne: "a \<noteq> b"
  have *: False if "lastActiveBefore hs t x" "lastActiveBefore hs t y" "x < y" for x y
  proof -
    from that(2,3) have "0 \<le> y \<and> activeBefore hs t (nat y)"
      unfolding lastActiveBefore_def using that(1) unfolding lastActiveBefore_def by auto
    moreover have "x < int (nat y)" using that(3) calculation by simp
    ultimately show False using that(1) unfolding lastActiveBefore_def by blast
  qed
  from ne have "a < b \<or> b < a" by auto
  then show False using *[OF assms] *[OF assms(2,1)] by blast
qed

lemma lastActiveBefore_iff: "lastActiveBefore hs t a \<longleftrightarrow> a = lastActiveLoop hs t (length hs)"
  using lastActiveLoop_is_last lastActiveBefore_unique by blast

lemma reached_cong:
  "length hs' = length hs \<Longrightarrow> \<forall>i<length hs. timestamp (hs' ! i) = timestamp (hs ! i) \<Longrightarrow>
   reached hs' t i j = reached hs t i j"
  by (auto simp: reached_def)

lemma handleMayBeInactive_timestamp:
  "j < length hs \<Longrightarrow> timestamp (handleMayBeInactive hs t d ! j) = timestamp (hs ! j)"
  by (simp add: handleMayBeInactive_nth)

lemma handleMayBeInactive_active:
  "j < length hs \<Longrightarrow>
   userActivity (data (handleMayBeInactive hs t d ! j)) = Active \<longleftrightarrow> userActivity (data (hs ! j)) = Active"
  by (simp add: handleMayBeInactive_nth)

lemma handleMayBeInactive_lastActive:
  "lastActiveLoop (handleMayBeInactive hs t d) t' (length hs) = lastActiveLoop hs t' (length hs)"
  by (rule lastActiveLoop_cong) (simp add: handleMayBeInactive_timestamp handleMayBeInactive_active)

text \<open>
  Claim C3. Applying the correction twice with the same timestamp and the same heartbeat data
  gives the same sequence as applying it once: the second pass changes nothing, in the target
  range or outside it.
\<close>

theorem C3_correction_idempotent:
  "handleMayBeInactive (handleMayBeInactive hs t d) t d = handleMayBeInactive hs t d"
proof (rule nth_equalityI)
  let ?r = "handleMayBeInactive hs t d"
  show "length (handleMayBeInactive ?r t d) = length ?r"
    by (rule handleMayBeInactive_length)
  fix j
  assume "j < length (handleMayBeInactive ?r t d)"
  then have j: "j < length hs" by (simp add: handleMayBeInactive_length)
  then have jr: "j < length ?r" by (simp add: handleMayBeInactive_length)
  have la: "lastActiveLoop ?r t (length ?r) = lastActiveLoop hs t (length hs)"
    by (simp add: handleMayBeInactive_length handleMayBeInactive_lastActive)
  have re: "reached ?r t i j = reached hs t i j" for i
    by (rule reached_cong) (simp_all add: handleMayBeInactive_length handleMayBeInactive_timestamp)
  show "handleMayBeInactive ?r t d ! j = ?r ! j"
    unfolding handleMayBeInactive_nth[OF jr] la re
    by (simp add: handleMayBeInactive_nth[OF j])
qed

section \<open>Adding a heartbeat\<close>

lemma getHeartbeats_setHeartbeats:
  "getHeartbeats (setHeartbeats k hs st) k = Some hs"
  by (simp add: getHeartbeats_def setHeartbeats_def update_conv')

lemma getHeartbeats_addHeartbeat:
  "getHeartbeats (activityState (addHeartbeat ts d k s)) k =
     Some ((if userActivity d = Inactive
            then handleMayBeInactive (case getHeartbeats (activityState s) k of None \<Rightarrow> [] | Some hs \<Rightarrow> hs) ts d
            else (case getHeartbeats (activityState s) k of None \<Rightarrow> [] | Some hs \<Rightarrow> hs))
           @ [\<lparr>timestamp = ts, data = d\<rparr>])"
  by (simp add: addHeartbeat_def Let_def getHeartbeats_setHeartbeats)

lemma handleMayBeInactive_three:
  assumes "userActivity d = Inactive"
    and "userActivity (data h0) = Active"
    and "userActivity (data h1) = May_be_inactive"
    and "userActivity (data h2) = May_be_inactive"
    and "timestamp h0 < timestamp h1" "timestamp h1 < timestamp h2" "timestamp h2 < t3"
  shows "handleMayBeInactive [h0, h1, h2] t3 d = [h0, markInactive h1, markInactive h2]"
proof -
  have la: "lastActiveLoop [h0, h1, h2] t3 (length [h0, h1, h2]) = 0"
    using assms by (simp add: numeral_3_eq_3)
  have cl: "convertLoop [h0, h1, h2] t3 (Suc 0) False = ([h0, markInactive h1, markInactive h2], True)"
    using assms by (simp add: convertLoop.simps)
  show ?thesis
    unfolding handleMayBeInactive_def la using assms cl by simp
qed

lemma reached_from_lastActive:
  assumes "lastActiveBefore hs t a" "a < int j" "j < length hs"
    and "\<forall>m. a < int m \<and> m \<le> j \<longrightarrow> timestamp (hs ! m) < t"
  shows "reached hs t (nat (lastActiveLoop hs t (length hs) + 1)) j"
proof -
  have a: "a = lastActiveLoop hs t (length hs)" using assms(1) by (simp add: lastActiveBefore_iff)
  have "-1 \<le> a" using a lastActiveLoop_bounds[of hs t "length hs"] by simp
  then show ?thesis
    unfolding reached_def a[symmetric] using assms(2-4) by auto
qed

text \<open>
  Claim C1, as amended. With an \<open>inactive\<close> sample at \<open>t3\<close>, \<open>addHeartbeat\<close> stores the corrected
  sequence of the day followed by the new heartbeat. For \<open>[active@t0, may_be_inactive@t1,
  may_be_inactive@t2]\<close> with \<open>t0 < t1 < t2 < t3\<close> the heartbeats at \<open>t1\<close> and \<open>t2\<close> become
  \<open>inactive\<close> and the one at \<open>t0\<close> is unchanged. In general a \<open>may_be_inactive\<close> heartbeat after
  the last \<open>active\<close> heartbeat before \<open>t3\<close> is rewritten to \<open>inactive\<close> when every heartbeat from
  there up to and including it has a timestamp before \<open>t3\<close>, which is the case for all of them
  with a timestamp before \<open>t3\<close> when the timestamps do not decrease along the sequence.
\<close>

theorem C1_addHeartbeat_backfill:
  assumes "userActivity d = Inactive"
    and "hs = (case getHeartbeats (activityState s) k of None \<Rightarrow> [] | Some x \<Rightarrow> x)"
  shows "getHeartbeats (activityState (addHeartbeat t3 d k s)) k =
           Some (handleMayBeInactive hs t3 d @ [\<lparr>timestamp = t3, data = d\<rparr>]) \<and>
         (\<forall>h0 h1 h2.
            hs = [h0, h1, h2] \<and> userActivity (data h0) = Active \<and>
            userActivity (data h1) = May_be_inactive \<and> userActivity (data h2) = May_be_inactive \<and>
            timestamp h0 < timestamp h1 \<and> timestamp h1 < timestamp h2 \<and> timestamp h2 < t3 \<longrightarrow>
            handleMayBeInactive hs t3 d = [h0, markInactive h1, markInactive h2]) \<and>
         (\<forall>a j.
            lastActiveBefore hs t3 a \<and> a < int j \<and> j < length hs \<and>
            userActivity (data (hs ! j)) = May_be_inactive \<and>
            (\<forall>m. a < int m \<and> m \<le> j \<longrightarrow> timestamp (hs ! m) < t3) \<longrightarrow>
            handleMayBeInactive hs t3 d ! j = markInactive (hs ! j))"
proof (intro conjI allI impI)
  show "getHeartbeats (activityState (addHeartbeat t3 d k s)) k =
           Some (handleMayBeInactive hs t3 d @ [\<lparr>timestamp = t3, data = d\<rparr>])"
    using assms by (simp add: getHeartbeats_addHeartbeat)
next
  fix h0 h1 h2
  assume "hs = [h0, h1, h2] \<and> userActivity (data h0) = Active \<and>
            userActivity (data h1) = May_be_inactive \<and> userActivity (data h2) = May_be_inactive \<and>
            timestamp h0 < timestamp h1 \<and> timestamp h1 < timestamp h2 \<and> timestamp h2 < t3"
  then show "handleMayBeInactive hs t3 d = [h0, markInactive h1, markInactive h2]"
    using assms(1) handleMayBeInactive_three[of d h0 h1 h2 t3] by simp
next
  fix a j
  assume h: "lastActiveBefore hs t3 a \<and> a < int j \<and> j < length hs \<and>
            userActivity (data (hs ! j)) = May_be_inactive \<and>
            (\<forall>m. a < int m \<and> m \<le> j \<longrightarrow> timestamp (hs ! m) < t3)"
  then have "reached hs t3 (nat (lastActiveLoop hs t3 (length hs) + 1)) j"
    using reached_from_lastActive[of hs t3 a j] by blast
  then show "handleMayBeInactive hs t3 d ! j = markInactive (hs ! j)"
    using h assms(1) by (simp add: handleMayBeInactive_nth)
qed

lemma lastActiveBefore_sample: "lastActiveBefore [beat 10 Active, beat 20 May_be_inactive, beat 30 May_be_inactive] 40 0"
  by (simp add: lastActiveBefore_iff numeral_3_eq_3 beat_def)

text \<open>An instance of C1: the sequence of the claim at times 10, 20, 30 and 40.\<close>

theorem C1_addHeartbeat_backfill_witness:
  "getHeartbeats (activityState (addHeartbeat 40 \<lparr>userActivity = Inactive, appWindow = None\<rparr> ''2024-05-01''
      (sampleStorage (sampleStore [(''2024-05-01'',
         \<lparr>heartbeats = [beat 10 Active, beat 20 May_be_inactive, beat 30 May_be_inactive]\<rparr>)])))) ''2024-05-01''
   = Some [beat 10 Active, beat 20 Inactive, beat 30 Inactive, beat 40 Inactive] \<and>
   handleMayBeInactive [beat 10 Active, beat 20 May_be_inactive, beat 30 May_be_inactive] 40
     \<lparr>userActivity = Inactive, appWindow = None\<rparr> ! 2 = beat 30 Inactive"
proof -
  let ?d = "\<lparr>userActivity = Inactive, appWindow = None\<rparr>"
  let ?hs = "[beat 10 Active, beat 20 May_be_inactive, beat 30 May_be_inactive]"
  let ?s = "sampleStorage (sampleStore [(''2024-05-01'', \<lparr>heartbeats = ?hs\<rparr>)])"
  have d: "userActivity ?d = Inactive" by simp
  have hs: "?hs = (case getHeartbeats (activityState ?s) ''2024-05-01'' of None \<Rightarrow> [] | Some x \<Rightarrow> x)"
    by (simp add: getHeartbeats_def sampleStorage_def sampleStore_def)
  note inst = C1_addHeartbeat_backfill[OF d hs, of 40]
  have three: "handleMayBeInactive ?hs 40 ?d = [beat 10 Active, markInactive (beat 20 May_be_inactive), markInactive (beat 30 May_be_inactive)]"
    using inst by (simp add: beat_def)
  have gen: "handleMayBeInactive ?hs 40 ?d ! 2 = markInactive (?hs ! 2)"
  proof -
    have "lastActiveBefore ?hs 40 0 \<and> (0::int) < int 2 \<and> 2 < length ?hs \<and>
            userActivity (data (?hs ! 2)) = May_be_inactive \<and>
            (\<forall>m. (0::int) < int m \<and> m \<le> 2 \<longrightarrow> timestamp (?hs ! m) < 40)"
      using lastActiveBefore_sample by (auto simp: beat_def nth_Cons split: nat.splits)
    with inst show ?thesis by blast
  qed
  show ?thesis
    using inst three gen by (simp add: beat_def markInactive_def)
qed

text \<open>
  Claim C1 as stated fails where the timestamps decrease: in \<open>[active@10, inactive@50,
  may_be_inactive@20]\<close> with an \<open>inactive\<close> sample at 30, the third heartbeat is
  \<open>may_be_inactive\<close>, lies after the last \<open>active\<close> one and has a timestamp before 30, yet the
  forward loop stops at the second heartbeat and the third stays \<open>may_be_inactive\<close>.
\<close>

theorem C1_unsorted_counterexample:
  "getHeartbeats (activityState (addHeartbeat 30 \<lparr>userActivity = Inactive, appWindow = None\<rparr> ''2024-05-01''
      (sampleStorage (sampleStore [(''2024-05-01'',
         \<lparr>heartbeats = [beat 10 Active, beat 50 Inactive, beat 20 May_be_inactive]\<rparr>)])))) ''2024-05-01''
   = Some [beat 10 Active, beat 50 Inactive, beat 20 May_be_inactive, beat 30 Inactive]"
proof -
  let ?hs = "[beat 10 Active, beat 50 Inactive, beat 20 May_be_inactive]"
  let ?s = "sampleStorage (sampleStore [(''2024-05-01'', \<lparr>heartbeats = ?hs\<rparr>)])"
  have old: "getHeartbeats (activityState ?s) ''2024-05-01'' = Some ?hs"
    by (simp add: getHeartbeats_def sampleStorage_def sampleStore_def)
  have run: "handleMayBeInactive ?hs 30 \<lparr>userActivity = Inactive, appWindow = None\<rparr> = ?hs"
    by (simp add: handleMayBeInactive_def beat_def numeral_3_eq_3 convertLoop.simps)
  show ?thesis
    unfolding getHeartbeats_addHeartbeat old using run by (simp add: beat_def)
qed

text \<open>
  Claim C2. For every sequence, timestamp and trigger sample the correction keeps the length
  of the sequence and, position by position, the timestamps and the app-window data; it
  leaves every heartbeat at or before the last \<open>active\<close> heartbeat before the trigger as it
  is; and a heartbeat it does change was \<open>may_be_inactive\<close> and differs from the original in
  the activity tag only, which is now \<open>inactive\<close>.
\<close>

theorem C2_correction_frame:
  assumes "lastActiveBefore hs t a"
  shows "length (handleMayBeInactive hs t d) = length hs \<and>
         map timestamp (handleMayBeInactive hs t d) = map timestamp hs \<and>
         map (\<lambda>hb. appWindow (data hb)) (handleMayBeInactive hs t d) = map (\<lambda>hb. appWindow (data hb)) hs \<and>
         (\<forall>j. j < length hs \<and> int j \<le> a \<longrightarrow> handleMayBeInactive hs t d ! j = hs ! j) \<and>
         (\<forall>j. j < length hs \<and> handleMayBeInactive hs t d ! j \<noteq> hs ! j \<longrightarrow>
              userActivity d = Inactive \<and> userActivity (data (hs ! j)) = May_be_inactive \<and>
              handleMayBeInactive hs t d ! j = (hs ! j)\<lparr>data := (data (hs ! j))\<lparr>userActivity := Inactive\<rparr>\<rparr>)"
proof -
  let ?r = "handleMayBeInactive hs t d"
  have len: "length ?r = length hs" by (rule handleMayBeInactive_length)
  have ts: "map timestamp ?r = map timestamp hs"
    by (rule nth_equalityI) (simp_all add: len handleMayBeInactive_nth)
  have aw: "map (\<lambda>hb. appWindow (data hb)) ?r = map (\<lambda>hb. appWindow (data hb)) hs"
    by (rule nth_equalityI) (simp_all add: len handleMayBeInactive_nth)
  have a: "a = lastActiveLoop hs t (length hs)" using assms by (simp add: lastActiveBefore_iff)
  have before: "?r ! j = hs ! j" if "j < length hs \<and> int j \<le> a" for j
  proof -
    have "\<not> reached hs t (nat (lastActiveLoop hs t (length hs) + 1)) j"
      using that unfolding reached_def a[symmetric] by auto
    then show ?thesis using that by (simp add: handleMayBeInactive_nth)
  qed
  have only: "userActivity d = Inactive \<and> userActivity (data (hs ! j)) = May_be_inactive \<and>
      ?r ! j = (hs ! j)\<lparr>data := (data (hs ! j))\<lparr>userActivity := Inactive\<rparr>\<rparr>"
    if "j < length hs \<and> ?r ! j \<noteq> hs ! j" for j
    using that by (auto simp: handleMayBeInactive_nth markInactive_def split: if_splits)
  show ?thesis using len ts aw before only by blast
qed

text \<open>An instance of C2 with the last active heartbeat at position 0.\<close>

theorem C2_correction_frame_witness:
  "length (handleMayBeInactive [beat 10 Active, beat 20 May_be_inactive, beat 30 May_be_inactive] 40
             \<lparr>userActivity = Inactive, appWindow = None\<rparr>) = 3 \<and>
   map timestamp (handleMayBeInactive [beat 10 Active, beat 20 May_be_inactive, beat 30 May_be_inactive] 40
             \<lparr>userActivity = Inactive, appWindow = None\<rparr>) = [10, 20, 30] \<and>
   handleMayBeInactive [beat 10 Active, beat 20 May_be_inactive, beat 30 May_be_inactive] 40
             \<lparr>userActivity = Inactive, appWindow = None\<rparr> ! 0 = beat 10 Active"
proof -
  let ?hs = "[beat 10 Active, beat 20 May_be_inactive, beat 30 May_be_inactive]"
  have la: "lastActiveBefore ?hs 40 0"
    by (simp add: lastActiveBefore_iff numeral_3_eq_3 beat_def)
  note inst = C2_correction_frame[OF la, of "\<lparr>userActivity = Inactive, appWindow = None\<rparr>"]
  have "0 < length ?hs \<and> int 0 \<le> 0" by simp
  with inst have "handleMayBeInactive ?hs 40 \<lparr>userActivity = Inactive, appWindow = None\<rparr> ! 0 = ?hs ! 0"
    by blast
  then show ?thesis using inst by (simp add: beat_def)
qed

section \<open>Day data of the storage manager\<close>


lemma matchesDateKey_sample2: "matchesDateKey ''2024-04-01''"
  by (simp add: matchesDateKey_def isDigit_def)





section \<open>The retention purge\<close>

lemma delete_after_filter:
  "filter (\<lambda>(k', d). k' \<notin> set ks) (AList.delete k xs) = filter (\<lambda>(k', d). k' \<notin> set (k # ks)) xs"
  by (induction xs) auto

lemma fold_deleteDay:
  "fold deleteDay ks st = st\<lparr>days := filter (\<lambda>(k, d). k \<notin> set ks) (days st)\<rparr>"
proof (induction ks arbitrary: st)
  case Nil
  then show ?case by simp
next
  case (Cons k ks)
  have "filter (\<lambda>(k', d). k' \<notin> set ks) (AList.delete k (days st)) =
        filter (\<lambda>(k', d). k' \<notin> set (k # ks)) (days st)"
    by (rule delete_after_filter)
  then have "(deleteDay k st)\<lparr>days := filter (\<lambda>(k', d). k' \<notin> set ks) (days (deleteDay k st))\<rparr> =
      st\<lparr>days := filter (\<lambda>(k', d). k' \<notin> set (k # ks)) (days st)\<rparr>"
    by (simp add: deleteDay_def)
  moreover have "fold deleteDay (k # ks) st = fold deleteDay ks (deleteDay k st)" by simp
  ultimately show ?case using Cons.IH[of "deleteDay k st"] by simp
qed

lemma getDatesOlderThan_eq:
  "getDatesOlderThan p s c = filter (utcMidnightBefore p c) (map fst (days (activityState s)))"
  by (simp add: getDatesOlderThan_def utcMidnightBefore_def[abs_def] getAvailableDates_def)

lemma days_after_delete:
  "filter (\<lambda>(k, d). k \<notin> set (getDatesOlderThan p s c)) (days (activityState s)) =
   filter (\<lambda>(k, d). \<not> utcMidnightBefore p c k) (days (activityState s))"
  by (rule filter_cong) (force simp: getDatesOlderThan_eq)+

lemma nothing_to_delete:
  "getDatesOlderThan p s c = [] \<Longrightarrow>
   filter (\<lambda>(k, d). \<not> utcMidnightBefore p c k) (days (activityState s)) = days (activityState s)"
  by (auto simp: getDatesOlderThan_eq filter_empty_conv filter_id_conv)


lemma cleanupOldData_run:
  assumes "\<not> useMockData (options s)" "lastCleanupTime (activityState s) \<le> now - 86400000"
  shows "cleanupOldData p now now' s fs =
     (let s' = s\<lparr>activityState := (activityState s)
                 \<lparr>days := filter (\<lambda>(k, d). \<not> utcMidnightBefore p (now - 2592000000) k) (days (activityState s)),
                  lastCleanupTime := now'\<rparr>\<rparr>
      in (s', saveToDisk p s' fs))"
proof (cases "getDatesOlderThan p s (now - 2592000000) = []")
  case True
  then show ?thesis
    using assms nothing_to_delete[OF True]
    by (simp add: cleanupOldData_def getLastCleanupTime_def oneDayMs_def Let_def updateLastCleanupTime_def)
next
  case False
  then show ?thesis
    using assms days_after_delete[of p s "now - 2592000000"]
    by (simp add: cleanupOldData_def getLastCleanupTime_def oneDayMs_def Let_def
        updateLastCleanupTime_def fold_deleteDay)
qed




lemma sample_dirname:
  "pathDirname samplePlatform ''/data/chronflow-activity-store.json'' = ''/data''"
  by (simp add: samplePlatform_def)



section \<open>Reading back the JSON text that is written\<close>

lemma hexValue_hexChar: "d < 16 \<Longrightarrow> hexValue (hexChar d) = Some d"
  by (auto simp: hexValue_def hexChar_def Let_def)

lemma hexCode_control:
  "n < 256 \<Longrightarrow> hexCode (CHR ''0'') (CHR ''0'') (hexChar (n div 16)) (hexChar (n mod 16)) = Some n"
proof -
  assume "n < 256"
  then have "n div 16 < 16" by simp
  then have "hexValue (hexChar (n div 16)) = Some (n div 16)" by (rule hexValue_hexChar)
  moreover have "hexValue (hexChar (n mod 16)) = Some (n mod 16)" by (rule hexValue_hexChar) simp
  moreover have "hexValue (CHR ''0'') = Some 0" by (simp add: hexValue_def)
  ultimately show ?thesis by (simp add: hexCode_def)
qed

lemma parseChars_escapeChar:
  assumes "parseChars r = Some (s, r')"
  shows "parseChars (escapeChar c @ r) = Some (c # s, r')"
proof -
  consider "c = CHR 0x22" | "c = CHR 0x5C" | "c = CHR 0x0A" | "c = CHR 0x0D" | "c = CHR 0x09"
    | "c = CHR 0x08" | "c = CHR 0x0C"
    | "c \<noteq> CHR 0x22" "c \<noteq> CHR 0x5C" "c \<noteq> CHR 0x0A" "c \<noteq> CHR 0x0D" "c \<noteq> CHR 0x09" "c \<noteq> CHR 0x08" "c \<noteq> CHR 0x0C"
    by blast
  then show ?thesis
  proof cases
    case 8
    show ?thesis
    proof (cases "isControl c")
      case True
      have lt: "(of_char c :: nat) < 256" using True by (simp add: isControl_def)
      have "escapeChar c @ r =
          CHR 0x5C # CHR ''u'' # CHR ''0'' # CHR ''0'' #
          hexChar ((of_char c :: nat) div 16) # hexChar ((of_char c :: nat) mod 16) # r"
        using 8 True by (simp add: escapeChar_def)
      then show ?thesis
        using assms lt by (simp add: hexCode_control)
    next
      case False
      then show ?thesis using 8 assms by (simp add: escapeChar_def)
    qed
  qed (use assms in \<open>simp_all add: escapeChar_def unescapeChar_def\<close>)
qed

lemma parseChars_quote:
  "parseChars (concat (map escapeChar s) @ CHR 0x22 # rest) = Some (s, rest)"
proof (induction s)
  case Nil
  then show ?case by simp
next
  case (Cons c s)
  then show ?case using parseChars_escapeChar[of _ s rest c] by simp
qed

lemma of_char_digitChar: "d < 10 \<Longrightarrow> (of_char (digitChar d) :: nat) = 48 + d"
  by (simp add: digitChar_def)

lemma isDecimal_digitChar: "d < 10 \<Longrightarrow> isDecimal (digitChar d)"
  by (simp add: isDecimal_def of_char_digitChar)

lemma digitsOf_nonempty: "digitsOf n \<noteq> []"
  by (subst digitsOf.simps) simp

lemma digitsOf_decimal: "list_all isDecimal (digitsOf n)"
proof (induction n rule: digitsOf.induct)
  case (1 n)
  then show ?case by (subst digitsOf.simps) (simp add: isDecimal_digitChar)
qed

lemma natOfDigits_snoc: "natOfDigits (ds @ [c]) = 10 * natOfDigits ds + (of_char c - 48)"
  by (simp add: natOfDigits_def)

lemma natOfDigits_digitsOf: "natOfDigits (digitsOf n) = n"
proof (induction n rule: digitsOf.induct)
  case (1 n)
  show ?case
  proof (cases "n < 10")
    case True
    then show ?thesis by (subst digitsOf.simps) (simp add: natOfDigits_def of_char_digitChar)
  next
    case False
    then show ?thesis
      using 1 by (subst digitsOf.simps) (simp add: natOfDigits_snoc of_char_digitChar)
  qed
qed

lemma hd_digitsOf: "hd (digitsOf n) = CHR ''0'' \<Longrightarrow> n = 0"
proof (induction n rule: digitsOf.induct)
  case (1 n)
  show ?case
  proof (cases "n < 10")
    case True
    then have "digitChar n = CHR ''0''" using 1(2) by (subst (asm) digitsOf.simps) simp
    then have "(of_char (digitChar n) :: nat) = of_char (CHR ''0'')" by simp
    then show ?thesis using True by (simp add: of_char_digitChar)
  next
    case False
    then have "hd (digitsOf (n div 10)) = CHR ''0''"
      using 1(2) digitsOf_nonempty[of "n div 10"] by (subst (asm) digitsOf.simps) simp
    then have "n div 10 = 0" using 1(1) False by simp
    then show ?thesis using False by simp
  qed
qed

lemma length_digitsOf_zero: "length (digitsOf 0) = 1"
  by (subst digitsOf.simps) simp

lemma not_decimal_minus: "\<not> isDecimal (CHR ''-'')"
  by (simp add: isDecimal_def)

lemma takeWhile_all:
  "list_all P xs \<Longrightarrow> ys = [] \<or> \<not> P (hd ys) \<Longrightarrow> takeWhile P (xs @ ys) = xs \<and> dropWhile P (xs @ ys) = ys"
  by (induction xs) (auto simp: takeWhile_eq_Nil_iff dropWhile_eq_self_iff neq_Nil_conv)

lemma parseNumber_digits:
  assumes "numberEnd rest"
  shows "takeWhile isDecimal (digitsOf n @ rest) = digitsOf n \<and> dropWhile isDecimal (digitsOf n @ rest) = rest"
  using takeWhile_all[OF digitsOf_decimal, of rest n] assms by (auto simp: numberEnd_def)

lemma leading_zero: "\<not> (length (digitsOf n) > 1 \<and> hd (digitsOf n) = CHR ''0'')"
  using hd_digitsOf[of n] length_digitsOf_zero by auto

lemma hd_digitsOf_not_minus: "hd (digitsOf n @ rest) \<noteq> CHR ''-''"
proof -
  have "isDecimal (hd (digitsOf n))"
    using digitsOf_decimal[of n] digitsOf_nonempty[of n] by (cases "digitsOf n") auto
  then show ?thesis using digitsOf_nonempty[of n] not_decimal_minus by (cases "digitsOf n") auto
qed

lemma parseNumber_showInt:
  assumes "numberEnd rest"
  shows "parseNumber (showInt i @ rest) = Some (i, rest)"
proof (cases "i < 0")
  case True
  have "parseNumber (CHR ''-'' # digitsOf (nat (- i)) @ rest) = Some (- int (natOfDigits (digitsOf (nat (- i)))), rest)"
    using parseNumber_digits[OF assms, of "nat (- i)"] leading_zero[of "nat (- i)"] digitsOf_nonempty[of "nat (- i)"] assms
    by (auto simp: parseNumber_def Let_def numberEnd_def)
  then show ?thesis using True by (simp add: showInt_def natOfDigits_digitsOf)
next
  case False
  have "parseNumber (digitsOf (nat i) @ rest) = Some (int (natOfDigits (digitsOf (nat i))), rest)"
    using parseNumber_digits[OF assms, of "nat i"] leading_zero[of "nat i"] digitsOf_nonempty[of "nat i"] assms
      hd_digitsOf_not_minus[of "nat i" rest]
    by (auto simp: parseNumber_def Let_def numberEnd_def)
  then show ?thesis using False by (simp add: showInt_def natOfDigits_digitsOf)
qed

lemma valueEnd_numberEnd: "valueEnd rest \<Longrightarrow> numberEnd rest"
  by (auto simp: valueEnd_def numberEnd_def isDecimal_def)

lemma valueStart_not: "valueStart c \<Longrightarrow> \<not> isWs c \<and> c \<noteq> CHR '']'' \<and> c \<noteq> CHR ''}''"
  by (auto simp: valueStart_def isWs_def isDecimal_def)

lemma skipWs_prefix: "list_all isWs ws \<Longrightarrow> skipWs (ws @ s) = skipWs s"
  by (induction ws) (auto simp: skipWs_def)

lemma skipWs_Cons: "\<not> isWs c \<Longrightarrow> skipWs (c # s) = c # s"
  by (simp add: skipWs_def)

lemma isWs_indent: "list_all isWs (indent n)"
  by (simp add: indent_def isWs_def list_all_iff)

lemma isWs_nl: "isWs (CHR 0x0A)"
  by (simp add: isWs_def)

lemma showInt_start: "\<exists>c cs. showInt i = c # cs \<and> (c = CHR ''-'' \<or> isDecimal c)"
proof (cases "i < 0")
  case True
  then show ?thesis by (simp add: showInt_def)
next
  case False
  obtain c cs where d: "digitsOf (nat i) = c # cs"
    using digitsOf_nonempty[of "nat i"] by (cases "digitsOf (nat i)") auto
  then have "isDecimal c" using digitsOf_decimal[of "nat i"] by simp
  then show ?thesis using False d by (simp add: showInt_def)
qed

lemma stringifyValue_start: "\<exists>c cs. stringifyValue n v = c # cs \<and> valueStart c"
proof (cases v)
  case (JNum r)
  then show ?thesis using showInt_start[of "\<lfloor>r\<rfloor>"] by (auto simp: valueStart_def)
qed (auto simp: valueStart_def quote_def)

lemma parseValue_null:
  "list_all isWs ws \<Longrightarrow> parseValue (Suc f) (ws @ ''null'' @ rest) = Some (JNull, rest)"
  by (simp add: skipWs_prefix skipWs_Cons isWs_def)

lemma parseValue_bool:
  "list_all isWs ws \<Longrightarrow>
   parseValue (Suc f) (ws @ (if b then ''true'' else ''false'') @ rest) = Some (JBool b, rest)"
  by (simp add: skipWs_prefix skipWs_Cons isWs_def)

lemma parseValue_string:
  assumes "list_all isWs ws"
  shows "parseValue (Suc f) (ws @ quote s @ rest) = Some (JStr s, rest)"
proof -
  have "skipWs (ws @ quote s @ rest) = CHR 0x22 # concat (map escapeChar s) @ CHR 0x22 # rest"
    using assms(1) by (simp add: skipWs_prefix quote_def skipWs_Cons isWs_def)
  then show ?thesis using parseChars_quote[of s rest] by simp
qed

lemma parseValue_number:
  assumes "list_all isWs ws" "valueEnd rest"
  shows "parseValue (Suc f) (ws @ showInt i @ rest) = Some (JNum (of_int i), rest)"
proof -
  obtain c cs where s: "showInt i = c # cs" and c: "c = CHR ''-'' \<or> isDecimal c"
    using showInt_start[of i] by blast
  have nows: "\<not> isWs c" using c by (auto simp: isWs_def isDecimal_def)
  have sk: "skipWs (ws @ showInt i @ rest) = c # cs @ rest"
    using assms(1) nows by (simp add: skipWs_prefix s skipWs_Cons)
  have other: "c \<noteq> CHR ''n'' \<and> c \<noteq> CHR ''t'' \<and> c \<noteq> CHR ''f'' \<and> c \<noteq> CHR 0x22 \<and> c \<noteq> CHR ''['' \<and> c \<noteq> CHR ''{''"
    using c by (auto simp: isDecimal_def)
  have "parseNumber (c # cs @ rest) = Some (i, rest)"
    using parseNumber_showInt[OF valueEnd_numberEnd[OF assms(2)], of i] s by simp
  then show ?thesis using sk other by simp
qed

lemma fuel_pos: "0 < fuel v"
  by (cases v) auto

lemma parse_stringify_parts:
  "(representable v \<longrightarrow>
      (\<forall>ws rest f. list_all isWs ws \<and> valueEnd rest \<and> fuel v \<le> f \<longrightarrow>
         parseValue f (ws @ stringifyValue n v @ rest) = Some (v, rest)))"
  "(xs \<noteq> [] \<and> representableItems xs \<longrightarrow>
      (\<forall>ws k rest f. list_all isWs ws \<and> fuelItems xs \<le> f \<longrightarrow>
         parseElements f (ws @ stringifyItems m xs @ CHR 0x0A # indent k @ CHR '']'' # rest) = Some (xs, rest)))"
  "(kvs \<noteq> [] \<and> representableMembers kvs \<longrightarrow>
      (\<forall>ws k rest f. list_all isWs ws \<and> fuelMembers kvs \<le> f \<longrightarrow>
         parseMembers f (ws @ stringifyMembers m' kvs @ CHR 0x0A # indent k @ CHR ''}'' # rest) = Some (kvs, rest)))"
proof (induction n v and m xs and m' kvs rule: stringifyValue_stringifyItems_stringifyMembers.induct)
  case (1 n)
  show ?case
  proof (intro impI allI)
    fix ws rest f assume a: "list_all isWs ws \<and> valueEnd rest \<and> fuel JNull \<le> f"
    then obtain g where "f = Suc g" by (cases f) auto
    then show "parseValue f (ws @ stringifyValue n JNull @ rest) = Some (JNull, rest)"
      using a parseValue_null[of ws g rest] by simp
  qed
next
  case (2 n b)
  show ?case
  proof (intro impI allI)
    fix ws rest f assume a: "list_all isWs ws \<and> valueEnd rest \<and> fuel (JBool b) \<le> f"
    then obtain g where "f = Suc g" by (cases f) auto
    then show "parseValue f (ws @ stringifyValue n (JBool b) @ rest) = Some (JBool b, rest)"
      using a parseValue_bool[of ws g b rest] by simp
  qed
next
  case (3 n r)
  show ?case
  proof (intro impI allI)
    assume rep: "representable (JNum r)"
    fix ws rest f assume a: "list_all isWs ws \<and> valueEnd rest \<and> fuel (JNum r) \<le> f"
    then obtain g where "f = Suc g" by (cases f) auto
    moreover have "of_int \<lfloor>r\<rfloor> = r" using rep by (simp add: safeInteger_def)
    ultimately show "parseValue f (ws @ stringifyValue n (JNum r) @ rest) = Some (JNum r, rest)"
      using a parseValue_number[of ws rest g "\<lfloor>r\<rfloor>"] by simp
  qed
next
  case (4 n s)
  show ?case
  proof (intro impI allI)
    assume rep: "representable (JStr s)"
    fix ws rest f assume a: "list_all isWs ws \<and> valueEnd rest \<and> fuel (JStr s) \<le> f"
    then obtain g where "f = Suc g" by (cases f) auto
    then show "parseValue f (ws @ stringifyValue n (JStr s) @ rest) = Some (JStr s, rest)"
      using a parseValue_string[of ws g s rest] by simp
  qed
next
  case (5 n xs)
  show ?case
  proof (intro impI allI)
    assume rep: "representable (JArr xs)"
    fix ws rest f assume a: "list_all isWs ws \<and> valueEnd rest \<and> fuel (JArr xs) \<le> f"
    then obtain g where f: "f = Suc g" and g: "fuelItems xs \<le> g" by (cases f) auto
    show "parseValue f (ws @ stringifyValue n (JArr xs) @ rest) = Some (JArr xs, rest)"
    proof (cases "xs = []")
      case True
      then show ?thesis using a f by (simp add: skipWs_prefix skipWs_Cons isWs_def)
    next
      case False
      let ?tail = "CHR 0x0A # indent n @ CHR '']'' # rest"
      let ?cs = "CHR 0x0A # stringifyItems (n + 2) xs @ ?tail"
      obtain x xs' where xs: "xs = x # xs'" using False by (cases xs) auto
      obtain c cs where st: "stringifyValue (n + 2) x = c # cs" and vs: "valueStart c"
        using stringifyValue_start by blast
      have "\<exists>r. stringifyItems (n + 2) xs = indent (n + 2) @ c # r"
        using xs st by (cases xs') auto
      then obtain r where items: "stringifyItems (n + 2) xs = indent (n + 2) @ c # r" by blast
      have "skipWs ?cs = skipWs (([CHR 0x0A] @ indent (n + 2)) @ c # r @ ?tail)"
        using items by simp
      also have "\<dots> = c # r @ ?tail"
        using valueStart_not[OF vs] isWs_indent isWs_nl
        by (subst skipWs_prefix) (simp_all add: skipWs_Cons)
      finally have sk: "skipWs ?cs = c # r @ ?tail" .
      from 5[OF False] False rep
      have ih: "\<And>ws k rest f. list_all isWs ws \<Longrightarrow> fuelItems xs \<le> f \<Longrightarrow>
          parseElements f (ws @ stringifyItems (n + 2) xs @ CHR 0x0A # indent k @ CHR '']'' # rest) = Some (xs, rest)"
        by simp
      have el: "parseElements g ([CHR 0x0A] @ stringifyItems (n + 2) xs @ ?tail) = Some (xs, rest)"
        by (rule ih) (use g isWs_nl in simp_all)
      have "skipWs (ws @ stringifyValue n (JArr xs) @ rest) = CHR ''['' # ?cs"
        using a False by (simp add: skipWs_prefix skipWs_Cons isWs_def)
      then show ?thesis
        using f sk el valueStart_not[OF vs] by simp
    qed
  qed
next
  case (6 n kvs)
  show ?case
  proof (intro impI allI)
    assume rep: "representable (JObj kvs)"
    fix ws rest f assume a: "list_all isWs ws \<and> valueEnd rest \<and> fuel (JObj kvs) \<le> f"
    then obtain g where f: "f = Suc g" and g: "fuelMembers kvs \<le> g" by (cases f) auto
    show "parseValue f (ws @ stringifyValue n (JObj kvs) @ rest) = Some (JObj kvs, rest)"
    proof (cases "kvs = []")
      case True
      then show ?thesis using a f by (simp add: skipWs_prefix skipWs_Cons isWs_def)
    next
      case False
      let ?tail = "CHR 0x0A # indent n @ CHR ''}'' # rest"
      let ?cs = "CHR 0x0A # stringifyMembers (n + 2) kvs @ ?tail"
      obtain k v kvs' where kvs: "kvs = (k, v) # kvs'" using False by (cases kvs) auto
      have "\<exists>r. stringifyMembers (n + 2) kvs = indent (n + 2) @ CHR 0x22 # r"
        using kvs by (cases kvs') (auto simp: quote_def)
      then obtain r where items: "stringifyMembers (n + 2) kvs = indent (n + 2) @ CHR 0x22 # r" by blast
      have "skipWs ?cs = skipWs (([CHR 0x0A] @ indent (n + 2)) @ CHR 0x22 # r @ ?tail)"
        using items by simp
      also have "\<dots> = CHR 0x22 # r @ ?tail"
        using isWs_indent isWs_nl
        by (subst skipWs_prefix) (simp_all add: skipWs_Cons isWs_def)
      finally have sk: "skipWs ?cs = CHR 0x22 # r @ ?tail" .
      from 6[OF False] False rep
      have ih: "\<And>ws k rest f. list_all isWs ws \<Longrightarrow> fuelMembers kvs \<le> f \<Longrightarrow>
          parseMembers f (ws @ stringifyMembers (n + 2) kvs @ CHR 0x0A # indent k @ CHR ''}'' # rest) = Some (kvs, rest)"
        by simp
      have el: "parseMembers g ([CHR 0x0A] @ stringifyMembers (n + 2) kvs @ ?tail) = Some (kvs, rest)"
        by (rule ih) (use g isWs_nl in simp_all)
      have "skipWs (ws @ stringifyValue n (JObj kvs) @ rest) = CHR ''{'' # ?cs"
        using a False by (simp add: skipWs_prefix skipWs_Cons isWs_def)
      then show ?thesis
        using f sk el by simp
    qed
  qed
next
  case (7 m)
  show ?case by simp
next
  case (8 m x)
  show ?case
  proof (intro impI allI)
    assume rep: "[x] \<noteq> [] \<and> representableItems [x]"
    fix ws k rest f assume a: "list_all isWs ws \<and> fuelItems [x] \<le> f"
    then obtain g where f: "f = Suc g" and g: "fuel x \<le> g" by (cases f) auto
    let ?R = "CHR 0x0A # indent k @ CHR '']'' # rest"
    from 8 rep
    have ih: "\<And>ws rest f. list_all isWs ws \<Longrightarrow> valueEnd rest \<Longrightarrow> fuel x \<le> f \<Longrightarrow>
        parseValue f (ws @ stringifyValue m x @ rest) = Some (x, rest)"
      by simp
    have "parseValue g ((ws @ indent m) @ stringifyValue m x @ ?R) = Some (x, ?R)"
      by (rule ih) (use a g isWs_indent in \<open>simp_all add: valueEnd_def\<close>)
    moreover have "skipWs ?R = CHR '']'' # rest"
      using skipWs_prefix[of "CHR 0x0A # indent k" "CHR '']'' # rest"] isWs_indent isWs_nl
      by (simp add: skipWs_Cons isWs_def)
    ultimately show "parseElements f (ws @ stringifyItems m [x] @ ?R) = Some ([x], rest)"
      using f by simp
  qed
next
  case (9 m x y ys)
  show ?case
  proof (intro impI allI)
    assume rep: "x # y # ys \<noteq> [] \<and> representableItems (x # y # ys)"
    fix ws k rest f assume a: "list_all isWs ws \<and> fuelItems (x # y # ys) \<le> f"
    then obtain g where f: "f = Suc g" and g: "fuel x \<le> g" "fuelItems (y # ys) \<le> g" by (cases f) auto
    let ?T = "CHR 0x0A # indent k @ CHR '']'' # rest"
    let ?R = "CHR '','' # CHR 0x0A # stringifyItems m (y # ys) @ ?T"
    from 9(1) rep
    have ih1: "\<And>ws rest f. list_all isWs ws \<Longrightarrow> valueEnd rest \<Longrightarrow> fuel x \<le> f \<Longrightarrow>
        parseValue f (ws @ stringifyValue m x @ rest) = Some (x, rest)"
      by simp
    from 9(2) rep
    have ih2: "\<And>ws k rest f. list_all isWs ws \<Longrightarrow> fuelItems (y # ys) \<le> f \<Longrightarrow>
        parseElements f (ws @ stringifyItems m (y # ys) @ CHR 0x0A # indent k @ CHR '']'' # rest) = Some (y # ys, rest)"
      by simp
    have "parseValue g ((ws @ indent m) @ stringifyValue m x @ ?R) = Some (x, ?R)"
      by (rule ih1) (use a g isWs_indent in \<open>simp_all add: valueEnd_def\<close>)
    moreover have "skipWs ?R = ?R" by (simp add: skipWs_Cons isWs_def)
    moreover have "parseElements g ([CHR 0x0A] @ stringifyItems m (y # ys) @ ?T) = Some (y # ys, rest)"
      by (rule ih2) (use g isWs_nl in simp_all)
    ultimately show "parseElements f (ws @ stringifyItems m (x # y # ys) @ ?T) = Some (x # y # ys, rest)"
      using f by simp
  qed
next
  case (10 m)
  show ?case by simp
next
  case (11 m k v)
  show ?case
  proof (intro impI allI)
    assume rep: "[(k, v)] \<noteq> [] \<and> representableMembers [(k, v)]"
    fix ws j rest f assume a: "list_all isWs ws \<and> fuelMembers [(k, v)] \<le> f"
    then obtain g where f: "f = Suc g" and g: "fuel v \<le> g" by (cases f) auto
    let ?R = "CHR 0x0A # indent j @ CHR ''}'' # rest"
    let ?V = "stringifyValue m v @ ?R"
    have key: "skipWs (ws @ stringifyMembers m [(k, v)] @ ?R) =
        CHR 0x22 # concat (map escapeChar k) @ CHR 0x22 # CHR '':'' # CHR '' '' # ?V"
      using a isWs_indent skipWs_prefix[of "ws @ indent m"]
      by (simp add: quote_def skipWs_Cons isWs_def)
    have pc: "parseChars (concat (map escapeChar k) @ CHR 0x22 # CHR '':'' # CHR '' '' # ?V) =
        Some (k, CHR '':'' # CHR '' '' # ?V)"
      by (rule parseChars_quote)
    have colon: "skipWs (CHR '':'' # CHR '' '' # ?V) = CHR '':'' # CHR '' '' # ?V"
      by (simp add: skipWs_Cons isWs_def)
    from 11 rep
    have ih: "\<And>ws rest f. list_all isWs ws \<Longrightarrow> valueEnd rest \<Longrightarrow> fuel v \<le> f \<Longrightarrow>
        parseValue f (ws @ stringifyValue m v @ rest) = Some (v, rest)"
      by simp
    have pv: "parseValue g ([CHR '' ''] @ stringifyValue m v @ ?R) = Some (v, ?R)"
      by (rule ih) (use g in \<open>simp_all add: valueEnd_def isWs_def\<close>)
    have close: "skipWs ?R = CHR ''}'' # rest"
      using skipWs_prefix[of "CHR 0x0A # indent j" "CHR ''}'' # rest"] isWs_indent isWs_nl
      by (simp add: skipWs_Cons isWs_def)
    show "parseMembers f (ws @ stringifyMembers m [(k, v)] @ ?R) = Some ([(k, v)], rest)"
      using f key pc colon pv close by simp
  qed
next
  case (12 m k v y ys)
  show ?case
  proof (intro impI allI)
    assume rep: "(k, v) # y # ys \<noteq> [] \<and> representableMembers ((k, v) # y # ys)"
    fix ws j rest f assume a: "list_all isWs ws \<and> fuelMembers ((k, v) # y # ys) \<le> f"
    then obtain g where f: "f = Suc g" and g: "fuel v \<le> g" "fuelMembers (y # ys) \<le> g" by (cases f) auto
    let ?T = "CHR 0x0A # indent j @ CHR ''}'' # rest"
    let ?R = "CHR '','' # CHR 0x0A # stringifyMembers m (y # ys) @ ?T"
    let ?V = "stringifyValue m v @ ?R"
    have key: "skipWs (ws @ stringifyMembers m ((k, v) # y # ys) @ ?T) =
        CHR 0x22 # concat (map escapeChar k) @ CHR 0x22 # CHR '':'' # CHR '' '' # ?V"
      using a isWs_indent skipWs_prefix[of "ws @ indent m"]
      by (simp add: quote_def skipWs_Cons isWs_def)
    have pc: "parseChars (concat (map escapeChar k) @ CHR 0x22 # CHR '':'' # CHR '' '' # ?V) =
        Some (k, CHR '':'' # CHR '' '' # ?V)"
      by (rule parseChars_quote)
    have colon: "skipWs (CHR '':'' # CHR '' '' # ?V) = CHR '':'' # CHR '' '' # ?V"
      by (simp add: skipWs_Cons isWs_def)
    from 12(1) rep
    have ih1: "\<And>ws rest f. list_all isWs ws \<Longrightarrow> valueEnd rest \<Longrightarrow> fuel v \<le> f \<Longrightarrow>
        parseValue f (ws @ stringifyValue m v @ rest) = Some (v, rest)"
      by simp
    from 12(2) rep
    have ih2: "\<And>ws k rest f. list_all isWs ws \<Longrightarrow> fuelMembers (y # ys) \<le> f \<Longrightarrow>
        parseMembers f (ws @ stringifyMembers m (y # ys) @ CHR 0x0A # indent k @ CHR ''}'' # rest) = Some (y # ys, rest)"
      by simp
    have pv: "parseValue g ([CHR '' ''] @ stringifyValue m v @ ?R) = Some (v, ?R)"
      by (rule ih1) (use g in \<open>simp_all add: valueEnd_def isWs_def\<close>)
    have comma: "skipWs ?R = ?R" by (simp add: skipWs_Cons isWs_def)
    have more: "parseMembers g ([CHR 0x0A] @ stringifyMembers m (y # ys) @ ?T) = Some (y # ys, rest)"
      by (rule ih2) (use g isWs_nl in simp_all)
    show "parseMembers f (ws @ stringifyMembers m ((k, v) # y # ys) @ ?T) = Some ((k, v) # y # ys, rest)"
      using f key pc colon pv comma more by simp
  qed
qed

lemma stringifyValue_nonempty: "0 < length (stringifyValue n v)"
  using stringifyValue_start[of n v] by auto

lemma fuel_le_length:
  "fuel v \<le> length (stringifyValue n v)"
  "fuelItems xs \<le> length (stringifyItems m xs) + 1"
  "fuelMembers kvs \<le> length (stringifyMembers m' kvs) + 1"
proof (induction n v and m xs and m' kvs rule: stringifyValue_stringifyItems_stringifyMembers.induct)
  case (3 n r)
  then show ?case using stringifyValue_nonempty[of n "JNum r"] by (cases "showInt \<lfloor>r\<rfloor>") auto
next
  case (4 n s)
  then show ?case by (simp add: quote_def)
next
  case (5 n xs)
  then show ?case by (cases "xs = []") auto
next
  case (6 n kvs)
  then show ?case by (cases "kvs = []") auto
qed auto

lemma parseJson_stringifyJson:
  assumes "representable v"
  shows "parseJson (stringifyJson v) = Some v"
proof -
  from parse_stringify_parts(1)[of v 0] assms
  have all: "\<And>ws rest f. list_all isWs ws \<Longrightarrow> valueEnd rest \<Longrightarrow> fuel v \<le> f \<Longrightarrow>
      parseValue f (ws @ stringifyValue 0 v @ rest) = Some (v, rest)"
    by simp
  have "parseValue (length (stringifyValue 0 v)) ([] @ stringifyValue 0 v @ []) = Some (v, [])"
    by (rule all) (simp_all add: valueEnd_def fuel_le_length(1))
  then show ?thesis by (simp add: parseJson_def stringifyJson_def skipWs_def)
qed

section \<open>Loading and saving the store file\<close>

lemma truthy_typeof_days:
  "truthy d \<and> typeofObject d \<longleftrightarrow> (case d of Some (JObj ds) \<Rightarrow> True | Some (JArr ds) \<Rightarrow> True | _ \<Rightarrow> False)"
  by (cases d rule: truthy.cases) simp_all

lemma validateStoreData_object:
  "validateStoreData (JObj kvs) =
     Inr (truthy (map_of kvs ''version'') \<and>
          (case map_of kvs ''days'' of Some (JObj ds) \<Rightarrow> True | Some (JArr ds) \<Rightarrow> True | _ \<Rightarrow> False))"
  using truthy_typeof_days[of "map_of kvs ''days''"]
  by (auto simp: validateStoreData_def)

lemma validateStoreData_array: "validateStoreData (JArr xs) = Inr False"
  by (simp add: validateStoreData_def)

lemma accepted_or_array:
  "acceptedStoreValue (JObj kvs) \<or> arrayDaysValue (JObj kvs) \<longleftrightarrow>
     truthy (map_of kvs ''version'') \<and>
     (case map_of kvs ''days'' of Some (JObj ds) \<Rightarrow> True | Some (JArr ds) \<Rightarrow> True | _ \<Rightarrow> False)"
  by (auto simp: acceptedStoreValue_def arrayDaysValue_def split: option.splits json.splits)

lemma passesChecks_eq:
  "passesChecks v = Inr (if acceptedStoreValue v \<or> arrayDaysValue v then Some v else None)"
proof (cases v)
  case (JObj kvs)
  show ?thesis
    unfolding JObj accepted_or_array
    by (simp add: passesChecks_def validateStoreData_object)
qed (simp_all add: passesChecks_def acceptedStoreValue_def arrayDaysValue_def validateStoreData_array
      validateStoreData_def)

lemma mkdirSync_cases:
  obtains (fail) "mkdirSync p fs d = Inl IoError"
  | (ok) fs1 where "mkdirSync p fs d = Inr fs1" "files fs1 = files fs" "readFails fs1 = readFails fs"
      "writeFails fs1 = writeFails fs" "unlinkFails fs1 = unlinkFails fs" "dirs fs \<subseteq> dirs fs1"
      "d \<in> dirs fs1"
  by (cases "list_ex (\<lambda>x. x \<in> writeFails fs \<or> files fs x \<noteq> None)
               (filter (\<lambda>x. x \<notin> dirs fs) (d # pathAncestors p (length d) d))")
     (auto simp: mkdirSync_def Let_def)

lemma ensureDir_cases:
  obtains (fail) e where
      "(if \<not> existsSync fs d then mkdirSync p fs d else Inr fs) = Inl e"
      "\<not> existsSync fs d" "mkdirSync p fs d = Inl e"
  | (ok) fs1 where "(if \<not> existsSync fs d then mkdirSync p fs d else Inr fs) = Inr fs1"
      "files fs1 = files fs" "readFails fs1 = readFails fs" "writeFails fs1 = writeFails fs"
      "unlinkFails fs1 = unlinkFails fs" "dirs fs \<subseteq> dirs fs1" "existsSync fs1 d"
      "existsSync fs d \<or> mkdirSync p fs d = Inr fs1"
proof (cases "existsSync fs d")
  case True
  then show ?thesis using that(2)[of fs] by simp
next
  case False
  show ?thesis
  proof (cases rule: mkdirSync_cases[of p fs d])
    case fail
    then show ?thesis using False that(1)[of IoError] by simp
  next
    case (ok fs1)
    then show ?thesis using False that(2)[of fs1] by (simp add: existsSync_def)
  qed
qed

lemma loadDataTry_fail:
  "(if \<not> existsSync fs (pathDirname p path) then mkdirSync p fs (pathDirname p path) else Inr fs) = Inl e \<Longrightarrow>
   loadDataTry p fs path = (Inl e, fs)"
  by (simp add: loadDataTry_def Let_def)

lemma loadDataTry_ok:
  assumes "(if \<not> existsSync fs (pathDirname p path) then mkdirSync p fs (pathDirname p path) else Inr fs) = Inr fs1"
  shows "loadDataTry p fs path =
     (if \<not> existsSync fs1 path then Inr None
      else case readFileSync fs1 path of
             Inl e \<Rightarrow> Inl e
           | Inr c \<Rightarrow> (case jsonParse p c of None \<Rightarrow> Inl SyntaxError | Some v \<Rightarrow> passesChecks v),
      fs1)"
  unfolding loadDataTry_def Let_def assms
  by (auto simp: passesChecks_def split: sum.splits option.splits)

lemma loadDataTry_exists:
  "existsSync fs (pathDirname p path) \<Longrightarrow> snd (loadDataTry p fs path) = fs"
  using loadDataTry_ok[of fs p path fs] by simp

lemma loadDataTry_parsed:
  assumes "existsSync fs (pathDirname p path) \<or> (\<exists>fs1. mkdirSync p fs (pathDirname p path) = Inr fs1)"
    and "files fs path = Some c" "path \<notin> readFails fs" "jsonParse p c = Some v"
  shows "fst (loadDataTry p fs path) = passesChecks v"
proof (cases rule: ensureDir_cases[of fs "pathDirname p path" p])
  case (fail e)
  then show ?thesis using assms(1) by auto
next
  case (ok fs1)
  have "existsSync fs1 path" "readFileSync fs1 path = Inr c"
    using ok(2,3) assms(2,3) by (simp_all add: existsSync_def readFileSync_def)
  then show ?thesis
    unfolding loadDataTry_ok[OF ok(1)] using assms(4) by simp
qed

lemma loadData_no_throw: "\<exists>r. fst (loadData p fs path) = Inr r"
  by (auto simp: loadData_def split: prod.splits sum.splits)

lemma loadDataTry_Some:
  assumes "fst (loadDataTry p fs path) = Inr (Some v)"
  shows "(acceptedStoreValue v \<or> arrayDaysValue v) \<and>
         (\<exists>c. files fs path = Some c \<and> path \<notin> readFails fs \<and> jsonParse p c = Some v) \<and>
         (existsSync fs (pathDirname p path) \<or> (\<exists>fs1. mkdirSync p fs (pathDirname p path) = Inr fs1))"
proof (cases rule: ensureDir_cases[of fs "pathDirname p path" p])
  case (fail e)
  then show ?thesis using assms by (simp add: loadDataTry_fail)
next
  case (ok fs1)
  from assms have ex: "existsSync fs1 path"
    unfolding loadDataTry_ok[OF ok(1)] by (simp split: if_splits)
  with assms obtain c where c: "readFileSync fs1 path = Inr c"
    unfolding loadDataTry_ok[OF ok(1)] by (cases "readFileSync fs1 path") simp_all
  with assms ex obtain v' where v': "jsonParse p c = Some v'"
    unfolding loadDataTry_ok[OF ok(1)] by (cases "jsonParse p c") simp_all
  with assms ex c have pc: "passesChecks v' = Inr (Some v)"
    unfolding loadDataTry_ok[OF ok(1)] by simp
  then have eq: "v' = v" and acc: "acceptedStoreValue v \<or> arrayDaysValue v"
    by (auto simp: passesChecks_eq split: if_splits)
  have "files fs path = Some c \<and> path \<notin> readFails fs"
    using c ok(2,3) by (auto simp: readFileSync_def split: option.splits if_splits)
  then show ?thesis using acc v' eq ok(8) by auto
qed

lemma loadData_fst:
  "fst (loadData p fs path) =
     (if path = [] then Inr None
      else case fst (loadDataTry p fs path) of Inl e \<Rightarrow> Inr None | Inr r \<Rightarrow> Inr r)"
  by (auto simp: loadData_def split: prod.splits sum.splits)

lemma loadData_snd:
  "snd (loadData p fs path) = (if path = [] then fs else snd (loadDataTry p fs path))"
  by (auto simp: loadData_def split: prod.splits sum.splits)

lemma loadData_Some:
  assumes "fst (loadData p fs path) = Inr (Some v)"
  shows "(acceptedStoreValue v \<or> arrayDaysValue v) \<and>
         (\<exists>c. files fs path = Some c \<and> path \<notin> readFails fs \<and> jsonParse p c = Some v) \<and>
         (existsSync fs (pathDirname p path) \<or> (\<exists>fs1. mkdirSync p fs (pathDirname p path) = Inr fs1))"
proof -
  from assms have "fst (loadDataTry p fs path) = Inr (Some v)"
    by (auto simp: loadData_fst split: if_splits sum.splits)
  then show ?thesis by (rule loadDataTry_Some)
qed

lemma loadData_None_or_Some:
  "fst (loadData p fs path) = Inr None \<or> (\<exists>v. fst (loadData p fs path) = Inr (Some v))"
  using loadData_no_throw[of p fs path] by (metis option.exhaust)

lemma loadData_parsed:
  assumes "path \<noteq> []"
    and "existsSync fs (pathDirname p path) \<or> (\<exists>fs1. mkdirSync p fs (pathDirname p path) = Inr fs1)"
    and "files fs path = Some c" "path \<notin> readFails fs" "jsonParse p c = Some v"
  shows "fst (loadData p fs path) = Inr (if acceptedStoreValue v \<or> arrayDaysValue v then Some v else None)"
  using loadDataTry_parsed[OF assms(2-5)] assms(1)
  by (simp add: loadData_fst passesChecks_eq)

text \<open>
  Claim C7, as amended. For every file system and path \<open>loadData\<close> returns a value and does not
  throw. It returns \<open>null\<close> when the file is missing, when it cannot be read, when its directory
  is missing and cannot be created, when its content does not parse, and when the parsed
  value is not accepted. When the file is read and parses to \<open>v\<close>, the result is \<open>v\<close> itself
  exactly when \<open>v\<close> is an object with a truthy \<open>version\<close> and a \<open>days\<close> that is an object or an
  array, and \<open>null\<close> otherwise; and nothing but such a parsed value of the file is ever
  returned.
\<close>

theorem C7_loadData_fails_soft:
  "(\<exists>r. fst (loadData p fs path) = Inr r) \<and>
   (files fs path = None \<longrightarrow> fst (loadData p fs path) = Inr None) \<and>
   (path \<in> readFails fs \<longrightarrow> fst (loadData p fs path) = Inr None) \<and>
   (\<not> existsSync fs (pathDirname p path) \<and> (\<exists>e. mkdirSync p fs (pathDirname p path) = Inl e) \<longrightarrow>
      fst (loadData p fs path) = Inr None) \<and>
   (\<forall>c. files fs path = Some c \<and> jsonParse p c = None \<longrightarrow> fst (loadData p fs path) = Inr None) \<and>
   (\<forall>c v. files fs path = Some c \<and> jsonParse p c = Some v \<and>
      \<not> (acceptedStoreValue v \<or> arrayDaysValue v) \<longrightarrow>
      fst (loadData p fs path) = Inr None) \<and>
   (\<forall>c v. path \<noteq> [] \<and>
      (existsSync fs (pathDirname p path) \<or> (\<exists>fs1. mkdirSync p fs (pathDirname p path) = Inr fs1)) \<and>
      files fs path = Some c \<and> path \<notin> readFails fs \<and> jsonParse p c = Some v \<longrightarrow>
      fst (loadData p fs path) =
        Inr (if acceptedStoreValue v \<or> arrayDaysValue v then Some v else None)) \<and>
   (\<forall>v. fst (loadData p fs path) = Inr (Some v) \<longrightarrow>
      (acceptedStoreValue v \<or> arrayDaysValue v) \<and>
      (\<exists>c. files fs path = Some c \<and> jsonParse p c = Some v))"
proof -
  note some = loadData_Some[of p fs path]
  note none_or_some = loadData_None_or_Some[of p fs path]
  have nothrow: "\<exists>r. fst (loadData p fs path) = Inr r" by (rule loadData_no_throw)
  have missing: "files fs path = None \<longrightarrow> fst (loadData p fs path) = Inr None"
    using none_or_some some by auto
  have unreadable: "path \<in> readFails fs \<longrightarrow> fst (loadData p fs path) = Inr None"
    using none_or_some some by auto
  have nodir: "\<not> existsSync fs (pathDirname p path) \<and> (\<exists>e. mkdirSync p fs (pathDirname p path) = Inl e) \<longrightarrow>
      fst (loadData p fs path) = Inr None"
    using none_or_some some by auto
  have noparse: "\<forall>c. files fs path = Some c \<and> jsonParse p c = None \<longrightarrow> fst (loadData p fs path) = Inr None"
    using none_or_some some by auto
  have invalid: "\<forall>c v. files fs path = Some c \<and> jsonParse p c = Some v \<and>
      \<not> (acceptedStoreValue v \<or> arrayDaysValue v) \<longrightarrow>
      fst (loadData p fs path) = Inr None"
    using none_or_some some by auto
  have parsed: "\<forall>c v. path \<noteq> [] \<and>
      (existsSync fs (pathDirname p path) \<or> (\<exists>fs1. mkdirSync p fs (pathDirname p path) = Inr fs1)) \<and>
      files fs path = Some c \<and> path \<notin> readFails fs \<and> jsonParse p c = Some v \<longrightarrow>
      fst (loadData p fs path) =
        Inr (if acceptedStoreValue v \<or> arrayDaysValue v then Some v else None)"
    using loadData_parsed[of path fs p] by blast
  have accepted_only: "\<forall>v. fst (loadData p fs path) = Inr (Some v) \<longrightarrow>
      (acceptedStoreValue v \<or> arrayDaysValue v) \<and>
      (\<exists>c. files fs path = Some c \<and> jsonParse p c = Some v)"
    using some by blast
  show ?thesis
    using nothrow missing unreadable nodir noparse invalid parsed accepted_only by blast
qed

lemma pathAncestors_nodeJson: "pathAncestors (nodeJson p) n d = pathAncestors p n d"
  by (induction n arbitrary: d) (simp_all add: nodeJson_def Let_def)

lemma nodeJson_simps:
  "jsonParse (nodeJson p) = parseJson" "jsonStringify (nodeJson p) = stringifyJson"
  "pathDirname (nodeJson p) = pathDirname p" "pathJoin (nodeJson p) = pathJoin p"
  "userDataPath (nodeJson p) = userDataPath p" "asStoreData (nodeJson p) = asStoreData p"
  "mkdirSync (nodeJson p) = mkdirSync p"
  by (simp_all add: nodeJson_def mkdirSync_def pathAncestors_nodeJson[unfolded nodeJson_def] fun_eq_iff)

lemma representable_sampleArrayDays: "representable sampleArrayDaysDocument"
  by (simp add: sampleArrayDaysDocument_def isDecimal_def)

lemma representable_sampleDocument: "representable sampleDocument"
  by (simp add: sampleDocument_def isDecimal_def safeInteger_def)

text \<open>
  Instances of C7: a missing file, an unreadable file, a directory that cannot be created, a
  file that does not parse, a valid document, a document whose \<open>version\<close> is 0, and a document
  whose \<open>days\<close> is an array.
\<close>

theorem C7_loadData_fails_soft_witness:
  "fst (loadData samplePlatform sampleFs ''/data/chronflow-activity-store.json'') = Inr None \<and>
   fst (loadData samplePlatform
          (sampleFs\<lparr>files := [''/data/chronflow-activity-store.json'' \<mapsto> ''{version:1,days:{}}''],
                    readFails := {''/data/chronflow-activity-store.json''}\<rparr>)
          ''/data/chronflow-activity-store.json'') = Inr None \<and>
   fst (loadData samplePlatform
          (sampleFs\<lparr>files := [''/data/chronflow-activity-store.json'' \<mapsto> ''{version:1,days:{}}''],
                    dirs := {}, writeFails := {''/data''}\<rparr>)
          ''/data/chronflow-activity-store.json'') = Inr None \<and>
   fst (loadData samplePlatform
          (sampleFs\<lparr>files := [''/data/chronflow-activity-store.json'' \<mapsto> ''{version:'']\<rparr>)
          ''/data/chronflow-activity-store.json'') = Inr None \<and>
   fst (loadData samplePlatform
          (sampleFs\<lparr>files := [''/data/chronflow-activity-store.json'' \<mapsto> ''{version:1,days:{}}'']\<rparr>)
          ''/data/chronflow-activity-store.json'') = Inr (Some sampleDocument) \<and>
   fst (loadData (nodeJson samplePlatform)
          (sampleFs\<lparr>files := [''/data/chronflow-activity-store.json'' \<mapsto>
                                stringifyJson (JObj [(''version'', JNum 0), (''days'', JObj [])])]\<rparr>)
          ''/data/chronflow-activity-store.json'') = Inr None \<and>
   fst (loadData (nodeJson samplePlatform)
          (sampleFs\<lparr>files := [''/data/chronflow-activity-store.json'' \<mapsto>
                                stringifyJson sampleArrayDaysDocument]\<rparr>)
          ''/data/chronflow-activity-store.json'') = Inr (Some sampleArrayDaysDocument)"
proof -
  let ?path = "''/data/chronflow-activity-store.json''"
  let ?fs1 = "sampleFs\<lparr>files := [?path \<mapsto> ''{version:1,days:{}}''], readFails := {?path}\<rparr>"
  let ?fsd = "sampleFs\<lparr>files := [?path \<mapsto> ''{version:1,days:{}}''], dirs := {}, writeFails := {''/data''}\<rparr>"
  let ?fs2 = "sampleFs\<lparr>files := [?path \<mapsto> ''{version:'']\<rparr>"
  let ?fs3 = "sampleFs\<lparr>files := [?path \<mapsto> ''{version:1,days:{}}'']\<rparr>"
  let ?zero = "JObj [(''version'', JNum 0), (''days'', JObj [])]"
  let ?fs4 = "sampleFs\<lparr>files := [?path \<mapsto> stringifyJson ?zero]\<rparr>"
  let ?fs5 = "sampleFs\<lparr>files := [?path \<mapsto> stringifyJson sampleArrayDaysDocument]\<rparr>"
  let ?q = "nodeJson samplePlatform"
  have 1: "fst (loadData samplePlatform sampleFs ?path) = Inr None"
    using C7_loadData_fails_soft[of samplePlatform sampleFs ?path] by (simp add: sampleFs_def)
  have 2: "fst (loadData samplePlatform ?fs1 ?path) = Inr None"
    using C7_loadData_fails_soft[of samplePlatform ?fs1 ?path] by simp
  have "\<not> existsSync ?fsd (pathDirname samplePlatform ?path) \<and>
        (\<exists>e. mkdirSync samplePlatform ?fsd (pathDirname samplePlatform ?path) = Inl e)"
    by (simp add: sample_dirname existsSync_def mkdirSync_def sampleFs_def)
  then have d: "fst (loadData samplePlatform ?fsd ?path) = Inr None"
    using C7_loadData_fails_soft[of samplePlatform ?fsd ?path] by blast
  have "files ?fs2 ?path = Some ''{version:'' \<and> jsonParse samplePlatform ''{version:'' = None"
    by (simp add: samplePlatform_def)
  then have 3: "fst (loadData samplePlatform ?fs2 ?path) = Inr None"
    using C7_loadData_fails_soft[of samplePlatform ?fs2 ?path] by blast
  have acc: "acceptedStoreValue sampleDocument"
    by (simp add: acceptedStoreValue_def sampleDocument_def)
  have "?path \<noteq> [] \<and>
      (existsSync ?fs3 (pathDirname samplePlatform ?path) \<or>
       (\<exists>fs1. mkdirSync samplePlatform ?fs3 (pathDirname samplePlatform ?path) = Inr fs1)) \<and>
      files ?fs3 ?path = Some ''{version:1,days:{}}'' \<and> ?path \<notin> readFails ?fs3 \<and>
      jsonParse samplePlatform ''{version:1,days:{}}'' = Some sampleDocument"
    by (simp add: sample_dirname existsSync_def sampleFs_def) (simp add: samplePlatform_def)
  then have "fst (loadData samplePlatform ?fs3 ?path) =
      Inr (if acceptedStoreValue sampleDocument \<or> arrayDaysValue sampleDocument then Some sampleDocument else None)"
    using C7_loadData_fails_soft[of samplePlatform ?fs3 ?path] by blast
  then have 4: "fst (loadData samplePlatform ?fs3 ?path) = Inr (Some sampleDocument)"
    using acc by simp
  have rz: "representable ?zero"
    by (simp add: isDecimal_def safeInteger_def)
  have "files ?fs4 ?path = Some (stringifyJson ?zero) \<and>
      jsonParse ?q (stringifyJson ?zero) = Some ?zero \<and>
      \<not> (acceptedStoreValue ?zero \<or> arrayDaysValue ?zero)"
    by (simp add: acceptedStoreValue_def arrayDaysValue_def nodeJson_simps parseJson_stringifyJson[OF rz])
  then have 5: "fst (loadData ?q ?fs4 ?path) = Inr None"
    using C7_loadData_fails_soft[of ?q ?fs4 ?path] by blast
  have arr: "arrayDaysValue sampleArrayDaysDocument"
    by (simp add: arrayDaysValue_def sampleArrayDaysDocument_def)
  have "?path \<noteq> [] \<and>
      (existsSync ?fs5 (pathDirname ?q ?path) \<or>
       (\<exists>fs1. mkdirSync ?q ?fs5 (pathDirname ?q ?path) = Inr fs1)) \<and>
      files ?fs5 ?path = Some (stringifyJson sampleArrayDaysDocument) \<and> ?path \<notin> readFails ?fs5 \<and>
      jsonParse ?q (stringifyJson sampleArrayDaysDocument) = Some sampleArrayDaysDocument"
    by (simp add: nodeJson_simps sample_dirname existsSync_def sampleFs_def
        parseJson_stringifyJson[OF representable_sampleArrayDays])
  then have "fst (loadData ?q ?fs5 ?path) =
      Inr (if acceptedStoreValue sampleArrayDaysDocument \<or> arrayDaysValue sampleArrayDaysDocument
           then Some sampleArrayDaysDocument else None)"
    using C7_loadData_fails_soft[of ?q ?fs5 ?path] by blast
  then have 6: "fst (loadData ?q ?fs5 ?path) = Inr (Some sampleArrayDaysDocument)"
    using arr by simp
  show ?thesis using 1 2 d 3 4 5 6 by simp
qed

text \<open>
  Claim C7 as stated fails for a document whose \<open>days\<close> is an array. The file holds, as JSON
  text, the object with \<open>version\<close> \<open>true\<close> and \<open>days\<close> the empty array; \<open>days\<close> is not an
  object, a map from day keys to day data, yet \<open>typeof\<close> is \<open>'object'\<close> for an array as well
  and \<open>loadData\<close> returns the document.
\<close>

theorem C7_array_days_counterexample:
  "\<not> acceptedStoreValue sampleArrayDaysDocument \<and>
   fst (loadData (nodeJson samplePlatform)
          (sampleFs\<lparr>files := [''/data/chronflow-activity-store.json'' \<mapsto>
                                stringifyJson sampleArrayDaysDocument]\<rparr>)
          ''/data/chronflow-activity-store.json'') = Inr (Some sampleArrayDaysDocument)"
proof -
  let ?path = "''/data/chronflow-activity-store.json''"
  let ?fs = "sampleFs\<lparr>files := [?path \<mapsto> stringifyJson sampleArrayDaysDocument]\<rparr>"
  let ?q = "nodeJson samplePlatform"
  have n: "\<not> acceptedStoreValue sampleArrayDaysDocument"
    by (simp add: acceptedStoreValue_def sampleArrayDaysDocument_def)
  have arr: "arrayDaysValue sampleArrayDaysDocument"
    by (simp add: arrayDaysValue_def sampleArrayDaysDocument_def)
  have "fst (loadData ?q ?fs ?path) =
      Inr (if acceptedStoreValue sampleArrayDaysDocument \<or> arrayDaysValue sampleArrayDaysDocument
           then Some sampleArrayDaysDocument else None)"
    by (rule loadData_parsed[where c = "stringifyJson sampleArrayDaysDocument"])
       (simp_all add: nodeJson_simps sample_dirname existsSync_def sampleFs_def
          parseJson_stringifyJson[OF representable_sampleArrayDays])
  then show ?thesis using n arr by simp
qed

lemma saveData_success:
  assumes "fst (saveData p fs path v) = Inr True"
  shows "path \<noteq> [] \<and> existsSync (snd (saveData p fs path v)) (pathDirname p path) \<and>
         files (snd (saveData p fs path v)) path = Some (jsonStringify p v) \<and>
         readFails (snd (saveData p fs path v)) = readFails fs"
proof (cases rule: ensureDir_cases[of fs "pathDirname p path" p])
  case (fail e)
  then show ?thesis using assms by (auto simp: saveData_def saveDataTry_def Let_def split: if_splits)
next
  case (ok fs1)
  show ?thesis
    using assms ok(2-7)
    unfolding saveData_def saveDataTry_def Let_def ok(1)
    by (auto simp: writeFileSync_def existsSync_def split: if_splits)
qed

lemma activityName_inj: "activityName a = activityName b \<Longrightarrow> a = b"
  by (cases a; cases b) simp_all

lemma jsonOfHeartbeatData_inj: "jsonOfHeartbeatData d = jsonOfHeartbeatData d' \<Longrightarrow> d = d'"
  by (cases d; cases d')
     (auto simp: jsonOfHeartbeatData_def dest: activityName_inj split: option.splits)

lemma jsonOfHeartbeat_inj: "jsonOfHeartbeat h = jsonOfHeartbeat h' \<Longrightarrow> h = h'"
  by (cases h; cases h') (auto simp: jsonOfHeartbeat_def dest: jsonOfHeartbeatData_inj)

lemma jsonOfDayData_inj: "jsonOfDayData d = jsonOfDayData d' \<Longrightarrow> d = d'"
proof -
  assume a: "jsonOfDayData d = jsonOfDayData d'"
  have "inj jsonOfHeartbeat" by (rule injI) (rule jsonOfHeartbeat_inj)
  then have "heartbeats d = heartbeats d'"
    using a by (simp add: jsonOfDayData_def inj_map_eq_map)
  then show ?thesis by (cases d; cases d') simp
qed

lemma jsonOfStoreData_inj: "jsonOfStoreData st = jsonOfStoreData st' \<Longrightarrow> st = st'"
proof -
  assume a: "jsonOfStoreData st = jsonOfStoreData st'"
  have "inj (\<lambda>(k :: string, d). (k, jsonOfDayData d))"
    by (rule injI) (auto dest: jsonOfDayData_inj)
  then have "days st = days st'"
    using a by (simp add: jsonOfStoreData_def inj_map_eq_map)
  then show ?thesis using a by (cases st; cases st') (simp add: jsonOfStoreData_def)
qed

text \<open>
  Claim C8, as amended. With \<open>JSON.stringify\<close> and \<open>JSON.parse\<close> as in the section on JSON text,
  for a valid store value (truthy \<open>version\<close>, \<open>days\<close> an object) with representable content, a
  successful \<open>saveData\<close> followed by \<open>loadData\<close> on the same path, the file being readable,
  returns that same value. So when the value saved is that of a store \<open>st\<close> and the value loaded
  is that of a store \<open>st'\<close>, the two stores are equal: same day keys, same heartbeats, same
  aggregation interval, same timestamps.
\<close>

theorem C8_save_load_roundtrip:
  assumes "acceptedStoreValue v"
    and "representable v"
    and "fst (saveData (nodeJson p) fs path v) = Inr True"
    and "path \<notin> readFails fs"
  shows "fst (loadData (nodeJson p) (snd (saveData (nodeJson p) fs path v)) path) = Inr (Some v) \<and>
         (\<forall>st st'. v = jsonOfStoreData st \<and>
            fst (loadData (nodeJson p) (snd (saveData (nodeJson p) fs path v)) path) =
              Inr (Some (jsonOfStoreData st')) \<longrightarrow>
            st' = st)"
proof -
  let ?fs = "snd (saveData (nodeJson p) fs path v)"
  note s = saveData_success[OF assms(3)]
  have "fst (loadData (nodeJson p) ?fs path) =
      Inr (if acceptedStoreValue v \<or> arrayDaysValue v then Some v else None)"
  proof (rule loadData_parsed[where c = "stringifyJson v"])
    show "path \<noteq> []" using s by simp
    show "existsSync ?fs (pathDirname (nodeJson p) path) \<or>
        (\<exists>fs1. mkdirSync (nodeJson p) ?fs (pathDirname (nodeJson p) path) = Inr fs1)"
      using s by simp
    show "files ?fs path = Some (stringifyJson v)" using s by (simp add: nodeJson_simps)
    show "path \<notin> readFails ?fs" using s assms(4) by simp
    show "jsonParse (nodeJson p) (stringifyJson v) = Some v"
      using assms(2) by (simp add: nodeJson_simps parseJson_stringifyJson)
  qed
  then have r: "fst (loadData (nodeJson p) ?fs path) = Inr (Some v)"
    using assms(1) by simp
  then show ?thesis by (auto dest: jsonOfStoreData_inj)
qed

lemma sample_save_node_ok:
  "fst (saveData (nodeJson samplePlatform) sampleFs ''/data/chronflow-activity-store.json'' j) = Inr True"
  by (simp add: saveData_def saveDataTry_def nodeJson_simps sample_dirname existsSync_def sampleFs_def
      writeFileSync_def Let_def)

lemma accepted_sampleDayStore: "acceptedStoreValue (jsonOfStoreData sampleDayStore)"
  by (simp add: acceptedStoreValue_def jsonOfStoreData_def sampleDayStore_def)

lemma representable_sampleDayStore: "representable (jsonOfStoreData sampleDayStore)"
  by (simp add: jsonOfStoreData_def jsonOfDayData_def jsonOfHeartbeat_def jsonOfHeartbeatData_def
      sampleDayStore_def beat_def isDecimal_def safeInteger_def)

text \<open>
  An instance of C8: the store with one day of two heartbeats, saved to and loaded from the
  sample file system.
\<close>

theorem C8_save_load_roundtrip_witness:
  "fst (saveData (nodeJson samplePlatform) sampleFs ''/data/chronflow-activity-store.json''
         (jsonOfStoreData sampleDayStore)) = Inr True \<and>
   fst (loadData (nodeJson samplePlatform)
         (snd (saveData (nodeJson samplePlatform) sampleFs ''/data/chronflow-activity-store.json''
                 (jsonOfStoreData sampleDayStore)))
         ''/data/chronflow-activity-store.json'') = Inr (Some (jsonOfStoreData sampleDayStore))"
proof -
  have d: "''/data/chronflow-activity-store.json'' \<notin> readFails sampleFs"
    by (simp add: sampleFs_def)
  show ?thesis
    using C8_save_load_roundtrip[OF accepted_sampleDayStore representable_sampleDayStore
        sample_save_node_ok d] sample_save_node_ok
    by simp
qed

text \<open>
  Claim C8 as stated fails on a file that can be written and cannot be read: \<open>saveData\<close> writes
  the valid sample store and returns \<open>true\<close>, and \<open>loadData\<close> on the same path returns \<open>null\<close>.
\<close>

theorem C8_unreadable_file_counterexample:
  "acceptedStoreValue (jsonOfStoreData sampleDayStore) \<and>
   representable (jsonOfStoreData sampleDayStore) \<and>
   fst (saveData (nodeJson samplePlatform)
          (sampleFs\<lparr>readFails := {''/data/chronflow-activity-store.json''}\<rparr>)
          ''/data/chronflow-activity-store.json'' (jsonOfStoreData sampleDayStore)) = Inr True \<and>
   fst (loadData (nodeJson samplePlatform)
          (snd (saveData (nodeJson samplePlatform)
                  (sampleFs\<lparr>readFails := {''/data/chronflow-activity-store.json''}\<rparr>)
                  ''/data/chronflow-activity-store.json'' (jsonOfStoreData sampleDayStore)))
          ''/data/chronflow-activity-store.json'') = Inr None"
proof -
  let ?path = "''/data/chronflow-activity-store.json''"
  let ?q = "nodeJson samplePlatform"
  let ?fs = "sampleFs\<lparr>readFails := {?path}\<rparr>"
  let ?v = "jsonOfStoreData sampleDayStore"
  have s: "fst (saveData ?q ?fs ?path ?v) = Inr True"
    by (simp add: saveData_def saveDataTry_def nodeJson_simps sample_dirname existsSync_def sampleFs_def
        writeFileSync_def Let_def)
  have "readFails (snd (saveData ?q ?fs ?path ?v)) = {?path}"
    using saveData_success[OF s] by simp
  then have "fst (loadData ?q (snd (saveData ?q ?fs ?path ?v)) ?path) = Inr None"
    using loadData_None_or_Some[of ?q "snd (saveData ?q ?fs ?path ?v)" ?path]
      loadData_Some[of ?q "snd (saveData ?q ?fs ?path ?v)" ?path]
    by auto
  then show ?thesis
    using s accepted_sampleDayStore representable_sampleDayStore by simp
qed

section \<open>Relocating the store file\<close>

lemma loadDataTry_stable:
  "fst (loadDataTry p (snd (loadDataTry p fs path)) path) = fst (loadDataTry p fs path)"
proof (cases rule: ensureDir_cases[of fs "pathDirname p path" p])
  case (fail e)
  then show ?thesis by (simp add: loadDataTry_fail)
next
  case (ok fs1)
  have again: "(if \<not> existsSync fs1 (pathDirname p path) then mkdirSync p fs1 (pathDirname p path) else Inr fs1) = Inr fs1"
    using ok(7) by simp
  show ?thesis
    unfolding loadDataTry_ok[OF ok(1)] snd_conv loadDataTry_ok[OF again] by simp
qed

lemma loadDataTry_frame:
  "files (snd (loadDataTry p fs path)) = files fs \<and>
   readFails (snd (loadDataTry p fs path)) = readFails fs"
proof (cases rule: ensureDir_cases[of fs "pathDirname p path" p])
  case (fail e)
  then show ?thesis by (simp add: loadDataTry_fail)
next
  case (ok fs1)
  then show ?thesis by (simp add: loadDataTry_ok[OF ok(1)])
qed

lemma loadData_files: "files (snd (loadData p fs path)) = files fs"
  by (simp add: loadData_snd loadDataTry_frame)

lemma loadData_readFails: "readFails (snd (loadData p fs path)) = readFails fs"
  by (simp add: loadData_snd loadDataTry_frame)

lemma loadData_stable:
  "fst (loadData p (snd (loadData p fs path)) path) = fst (loadData p fs path)"
  by (simp add: loadData_snd loadData_fst loadDataTry_stable)

lemma moveStoreFile_readFails:
  "readFails (snd (moveStoreFile p fs old new)) = readFails fs"
proof (cases rule: ensureDir_cases[of fs "pathDirname p new" p])
  case (fail e)
  then show ?thesis by (simp add: moveStoreFile_def Let_def)
next
  case (ok fs1)
  show ?thesis
    using ok(3)
    unfolding moveStoreFile_def Let_def ok(1)
    by (auto simp: readFileSync_def writeFileSync_def unlinkSync_def
        split: if_splits sum.splits option.splits)
qed

lemma moveStoreFile_ok:
  assumes "fst (moveStoreFile p fs old new) = Inr u" "old \<noteq> new"
  shows "files (snd (moveStoreFile p fs old new)) = (files fs)(new := files fs old, old := None) \<and>
         files fs old \<noteq> None"
proof (cases rule: ensureDir_cases[of fs "pathDirname p new" p])
  case (fail e)
  then show ?thesis using assms by (simp add: moveStoreFile_def Let_def)
next
  case (ok fs1)
  show ?thesis
    using assms ok(2-5)
    unfolding moveStoreFile_def Let_def ok(1)
    by (auto simp: readFileSync_def writeFileSync_def unlinkSync_def
        split: if_splits sum.splits option.splits)
qed

lemma loadData_Some_dir:
  assumes "fst (loadData p fs path) = Inr (Some v)"
  shows "existsSync (snd (loadData p fs path)) (pathDirname p path)"
proof (cases rule: ensureDir_cases[of fs "pathDirname p path" p])
  case (fail e)
  then show ?thesis using assms by (simp add: loadData_fst loadDataTry_fail split: if_splits)
next
  case (ok fs1)
  have "path \<noteq> []" using assms by (auto simp: loadData_fst)
  then show ?thesis using ok(7) by (simp add: loadData_snd loadDataTry_ok[OF ok(1)])
qed

lemma loadData_unusable:
  assumes "path \<in> readFails fs \<or> files fs path = None \<or> (\<exists>c. files fs path = Some c \<and> jsonParse p c = None)"
  shows "fst (loadData p fs path) = Inr None"
  using assms loadData_None_or_Some[of p fs path] loadData_Some[of p fs path] by auto

text \<open>
  Claim C9, as amended. The new file path is the fixed file name under the new directory, or
  under the user-data directory when the argument is \<open>null\<close> (or empty). The files change only
  when the old file exists and the new one does not, and then, on success, the new path
  holds the old file's content and the old path is gone. The call returns \<open>true\<close> exactly when
  neither the move nor the settings update throws: a failure of the reload is caught inside
  \<open>loadData\<close> and does not make the call fail. When it returns \<open>true\<close>, the path, the adapter
  and the settings point to the new location and the store is the data loaded from there,
  or the prior store when nothing is loaded, as when the new file is missing, cannot be
  read or does not parse, or when its directory is still missing after the call. When it returns \<open>false\<close>, the path, the adapter, the options and the
  store are unchanged; the settings are unchanged when the move is what failed, and
  otherwise as the failed settings update left them. Nothing is said of the files after a
  failure.
\<close>

theorem C9_updateStoragePath:
  "(newDir = None \<or> newDir = Some [] \<longrightarrow>
      newStoreFilePath p newDir = pathJoin p (userDataPath p) ''chronflow-activity-store.json'') \<and>
   (\<forall>d. newDir = Some d \<and> d \<noteq> [] \<longrightarrow>
      newStoreFilePath p newDir = pathJoin p d ''chronflow-activity-store.json'') \<and>
   (\<exists>ok s' fs'.
      updateStoragePath p setDir newDir s fs = (ok, s', fs') \<and>
      (\<not> (existsSync fs (dataFilePath s) \<and> \<not> existsSync fs (newStoreFilePath p newDir)) \<longrightarrow>
         files fs' = files fs) \<and>
      (ok \<and> existsSync fs (dataFilePath s) \<and> \<not> existsSync fs (newStoreFilePath p newDir) \<longrightarrow>
         files fs (dataFilePath s) \<noteq> None \<and>
         files fs' = (files fs)(newStoreFilePath p newDir := files fs (dataFilePath s), dataFilePath s := None)) \<and>
      (ok \<longrightarrow>
         dataFilePath s' = newStoreFilePath p newDir \<and> persistence s' = newStoreFilePath p newDir \<and>
         setDir newDir (settingsManager s) = (Inr (), settingsManager s') \<and> options s' = options s \<and>
         activityState s' =
           (case fst (loadData p fs' (newStoreFilePath p newDir)) of
              Inr (Some d) \<Rightarrow> setData (asStoreData p d) (activityState s)
            | _ \<Rightarrow> activityState s)) \<and>
      (ok \<and> (newStoreFilePath p newDir \<in> readFails fs \<or> files fs' (newStoreFilePath p newDir) = None \<or>
              (\<exists>c. files fs' (newStoreFilePath p newDir) = Some c \<and> jsonParse p c = None) \<or>
              \<not> existsSync fs' (pathDirname p (newStoreFilePath p newDir))) \<longrightarrow>
         activityState s' = activityState s) \<and>
      (\<not> ok \<longrightarrow>
         dataFilePath s' = dataFilePath s \<and> persistence s' = persistence s \<and>
         activityState s' = activityState s \<and> options s' = options s \<and>
         settingsManager s' =
           (if fst (if existsSync fs (dataFilePath s) \<and> \<not> existsSync fs (newStoreFilePath p newDir)
                    then moveStoreFile p fs (dataFilePath s) (newStoreFilePath p newDir) else (Inr (), fs)) = Inr ()
            then snd (setDir newDir (settingsManager s)) else settingsManager s)) \<and>
      (ok \<longleftrightarrow>
         (if existsSync fs (dataFilePath s) \<and> \<not> existsSync fs (newStoreFilePath p newDir)
          then fst (moveStoreFile p fs (dataFilePath s) (newStoreFilePath p newDir)) = Inr () else True) \<and>
         fst (setDir newDir (settingsManager s)) = Inr ()))"
proof (intro conjI)
  show "newDir = None \<or> newDir = Some [] \<longrightarrow>
      newStoreFilePath p newDir = pathJoin p (userDataPath p) ''chronflow-activity-store.json''"
    by (auto simp: newStoreFilePath_def storeFileName_def)
  show "\<forall>d. newDir = Some d \<and> d \<noteq> [] \<longrightarrow>
      newStoreFilePath p newDir = pathJoin p d ''chronflow-activity-store.json''"
    by (auto simp: newStoreFilePath_def storeFileName_def)
next
  let ?old = "dataFilePath s"
  let ?new = "newStoreFilePath p newDir"
  let ?moved = "existsSync fs ?old \<and> \<not> existsSync fs ?new"
  let ?mv = "if ?moved then moveStoreFile p fs ?old ?new else (Inr (), fs)"
  let ?goal = "\<lambda>ok s' fs'. updateStoragePath p setDir newDir s fs = (ok, s', fs') \<and>
      (\<not> ?moved \<longrightarrow> files fs' = files fs) \<and>
      (ok \<and> existsSync fs ?old \<and> \<not> existsSync fs ?new \<longrightarrow>
         files fs ?old \<noteq> None \<and> files fs' = (files fs)(?new := files fs ?old, ?old := None)) \<and>
      (ok \<longrightarrow>
         dataFilePath s' = ?new \<and> persistence s' = ?new \<and>
         setDir newDir (settingsManager s) = (Inr (), settingsManager s') \<and> options s' = options s \<and>
         activityState s' =
           (case fst (loadData p fs' ?new) of
              Inr (Some d) \<Rightarrow> setData (asStoreData p d) (activityState s)
            | _ \<Rightarrow> activityState s)) \<and>
      (ok \<and> (?new \<in> readFails fs \<or> files fs' ?new = None \<or>
              (\<exists>c. files fs' ?new = Some c \<and> jsonParse p c = None) \<or>
              \<not> existsSync fs' (pathDirname p ?new)) \<longrightarrow>
         activityState s' = activityState s) \<and>
      (\<not> ok \<longrightarrow>
         dataFilePath s' = dataFilePath s \<and> persistence s' = persistence s \<and>
         activityState s' = activityState s \<and> options s' = options s \<and>
         settingsManager s' =
           (if fst (if existsSync fs (dataFilePath s) \<and> \<not> existsSync fs (newStoreFilePath p newDir)
                    then moveStoreFile p fs (dataFilePath s) (newStoreFilePath p newDir) else (Inr (), fs)) = Inr ()
            then snd (setDir newDir (settingsManager s)) else settingsManager s)) \<and>
      (ok \<longleftrightarrow> (if ?moved then fst (moveStoreFile p fs ?old ?new) = Inr () else True) \<and>
         fst (setDir newDir (settingsManager s)) = Inr ())"
  obtain x fs1 where mv: "?mv = (x, fs1)" by (cases ?mv)
  have ne: "?moved \<Longrightarrow> ?old \<noteq> ?new" by auto
  have fs1_nomove: "\<not> ?moved \<Longrightarrow> fs1 = fs \<and> x = Inr ()" using mv by auto
  have rf1: "readFails fs1 = readFails fs"
    using mv moveStoreFile_readFails[of p fs ?old ?new] by (auto split: if_splits)
  show "\<exists>ok s' fs'. ?goal ok s' fs'"
  proof (cases x)
    case (Inl e)
    have r: "updateStoragePath p setDir newDir s fs = (False, s, fs1)"
      unfolding updateStoragePath_def Let_def mv Inl by simp
    have "?moved" using fs1_nomove Inl by auto
    then have "fst (moveStoreFile p fs ?old ?new) = Inl e" using mv Inl by simp
    then have "?goal False s fs1" using r \<open>?moved\<close> by simp
    then show ?thesis by blast
  next
    case (Inr u)
    have files1: "?moved \<Longrightarrow> files fs ?old \<noteq> None \<and> files fs1 = (files fs)(?new := files fs ?old, ?old := None)"
    proof -
      assume m: "?moved"
      then have "fst (moveStoreFile p fs ?old ?new) = Inr u" "snd (moveStoreFile p fs ?old ?new) = fs1"
        using mv Inr by simp_all
      then show ?thesis using moveStoreFile_ok[of p fs ?old ?new u] ne[OF m] by simp
    qed
    have mvok: "?moved \<Longrightarrow> fst (moveStoreFile p fs ?old ?new) = Inr ()"
      using mv Inr by simp
    have fstmv: "fst ?mv = Inr ()" using mv Inr by simp
    obtain z sm where sd: "setDir newDir (settingsManager s) = (z, sm)"
      by (cases "setDir newDir (settingsManager s)")
    show ?thesis
    proof (cases z)
      case zl: (Inl e)
      have r: "updateStoragePath p setDir newDir s fs = (False, s\<lparr>settingsManager := sm\<rparr>, fs1)"
        unfolding updateStoragePath_def Let_def mv Inr sd zl by simp
      have "?goal False (s\<lparr>settingsManager := sm\<rparr>) fs1"
        unfolding fstmv using r sd zl fs1_nomove by simp
      then show ?thesis by blast
    next
      case zr: (Inr v)
      let ?s1 = "s\<lparr>settingsManager := sm, dataFilePath := ?new, persistence := ?new\<rparr>"
      obtain y fs2 where ld: "loadData p fs1 ?new = (y, fs2)" by (cases "loadData p fs1 ?new")
      obtain res where y: "y = Inr res" using loadData_no_throw[of p fs1 ?new] ld by auto
      have files2: "files fs2 = files fs1" using loadData_files[of p fs1 ?new] ld by simp
      have rf2: "readFails fs2 = readFails fs" using loadData_readFails[of p fs1 ?new] ld rf1 by simp
      have again: "fst (loadData p fs2 ?new) = Inr res"
        using loadData_stable[of p fs1 ?new] ld y by simp
      have unusable: "res = None"
        if "?new \<in> readFails fs \<or> files fs2 ?new = None \<or> (\<exists>c. files fs2 ?new = Some c \<and> jsonParse p c = None)"
        using loadData_unusable[of ?new fs2 p] that rf2 again by auto
      have nodir: "res = None" if "\<not> existsSync fs2 (pathDirname p ?new)"
        using loadData_Some_dir[of p fs1 ?new] ld y that by (cases res) auto
      let ?s2 = "case res of None \<Rightarrow> ?s1
                 | Some d \<Rightarrow> ?s1\<lparr>activityState := setData (asStoreData p d) (activityState ?s1)\<rparr>"
      have r: "updateStoragePath p setDir newDir s fs = (True, ?s2, fs2)"
        unfolding updateStoragePath_def Let_def mv Inr sd zr by (simp add: ld y split: option.splits)
      have kept: "?new \<in> readFails fs \<or> files fs2 ?new = None \<or>
              (\<exists>c. files fs2 ?new = Some c \<and> jsonParse p c = None) \<or>
              \<not> existsSync fs2 (pathDirname p ?new) \<longrightarrow>
         activityState ?s2 = activityState s"
        using unusable nodir by auto
      have "?goal True ?s2 fs2"
        using r sd zr fs1_nomove files1 files2 again mvok kept by (auto split: option.splits)
      then show ?thesis by blast
    qed
  qed
qed

lemma sample_new_path:
  "newStoreFilePath samplePlatform (Some ''/new'') = ''/new/chronflow-activity-store.json''"
  by (simp add: newStoreFilePath_def samplePlatform_def storeFileName_def)

lemma sample_new_dirname:
  "pathDirname samplePlatform ''/new/chronflow-activity-store.json'' = ''/new''"
  by (simp add: samplePlatform_def)

lemma sample_parse:
  "jsonParse samplePlatform ''{version:1,days:{}}'' = Some sampleDocument"
  by (simp add: samplePlatform_def)

lemma sample_ancestors: "pathAncestors samplePlatform (length ''/new'') ''/new'' = [''/'']"
  by (simp add: samplePlatform_def Let_def)

lemma sample_mkdir:
  "mkdirSync samplePlatform (sampleFs\<lparr>files := fl, unlinkFails := uf\<rparr>) ''/new'' =
     Inr (sampleFs\<lparr>files := fl, unlinkFails := uf, dirs := {''/'', ''/data'', ''/new''}\<rparr>)"
  if "fl ''/new'' = None"
  unfolding mkdirSync_def sample_ancestors using that by (auto simp: sampleFs_def Let_def)

lemma sample_mkdir_fails:
  "mkdirSync samplePlatform (sampleFs\<lparr>writeFails := {''/new''}\<rparr>) ''/new'' = Inl IoError"
  unfolding mkdirSync_def sample_ancestors by (simp add: sampleFs_def Let_def)

lemma sample_move:
  "moveStoreFile samplePlatform sampleOldFs ''/data/chronflow-activity-store.json''
      ''/new/chronflow-activity-store.json'' =
   (Inr (), sampleFs\<lparr>dirs := {''/'', ''/data'', ''/new''},
                   files := [''/new/chronflow-activity-store.json'' \<mapsto> ''{version:1,days:{}}'']\<rparr>)"
proof -
  have m: "mkdirSync samplePlatform sampleOldFs ''/new'' =
      Inr (sampleOldFs\<lparr>dirs := {''/'', ''/data'', ''/new''}\<rparr>)"
    using sample_mkdir[of "[''/data/chronflow-activity-store.json'' \<mapsto> ''{version:1,days:{}}'']" "{}"]
    by (simp add: sampleOldFs_def sampleFs_def)
  have e: "\<not> existsSync sampleOldFs ''/new''"
    by (simp add: existsSync_def sampleOldFs_def sampleFs_def)
  show ?thesis
    unfolding moveStoreFile_def Let_def sample_new_dirname using e
    by (simp add: m) (simp add: sampleOldFs_def sampleFs_def readFileSync_def writeFileSync_def
        unlinkSync_def fun_upd_twist)
qed

lemma sample_move_unlink_fails:
  "moveStoreFile samplePlatform (sampleOldFs\<lparr>unlinkFails := {''/data/chronflow-activity-store.json''}\<rparr>)
      ''/data/chronflow-activity-store.json'' ''/new/chronflow-activity-store.json'' =
   (Inl IoError, sampleFs\<lparr>dirs := {''/'', ''/data'', ''/new''},
        unlinkFails := {''/data/chronflow-activity-store.json''},
        files := [''/data/chronflow-activity-store.json'' \<mapsto> ''{version:1,days:{}}'',
                  ''/new/chronflow-activity-store.json'' \<mapsto> ''{version:1,days:{}}'']\<rparr>)"
proof -
  let ?fs = "sampleOldFs\<lparr>unlinkFails := {''/data/chronflow-activity-store.json''}\<rparr>"
  have m: "mkdirSync samplePlatform ?fs ''/new'' = Inr (?fs\<lparr>dirs := {''/'', ''/data'', ''/new''}\<rparr>)"
    using sample_mkdir[of "[''/data/chronflow-activity-store.json'' \<mapsto> ''{version:1,days:{}}'']"
        "{''/data/chronflow-activity-store.json''}"]
    by (simp add: sampleOldFs_def sampleFs_def)
  have e: "\<not> existsSync ?fs ''/new''"
    by (simp add: existsSync_def sampleOldFs_def sampleFs_def)
  show ?thesis
    unfolding moveStoreFile_def Let_def sample_new_dirname using e
    by (simp add: m) (simp add: sampleOldFs_def sampleFs_def readFileSync_def writeFileSync_def
        unlinkSync_def)
qed

lemma sample_load_new:
  "loadData samplePlatform
     (sampleFs\<lparr>dirs := {''/'', ''/data'', ''/new''},
               files := [''/new/chronflow-activity-store.json'' \<mapsto> ''{version:1,days:{}}'']\<rparr>)
     ''/new/chronflow-activity-store.json'' =
   (Inr (Some sampleDocument),
    sampleFs\<lparr>dirs := {''/'', ''/data'', ''/new''},
               files := [''/new/chronflow-activity-store.json'' \<mapsto> ''{version:1,days:{}}'']\<rparr>)"
proof -
  have v: "validateStoreData sampleDocument = Inr True"
    by (simp add: sampleDocument_def validateStoreData_object)
  have t: "truthy (Some sampleDocument) \<and> typeofObject (Some sampleDocument)"
    by (simp add: sampleDocument_def)
  show ?thesis
    by (simp add: loadData_def loadDataTry_def sample_new_dirname existsSync_def sampleFs_def
        readFileSync_def sample_parse v t Let_def)
qed

lemma sample_load_unreadable:
  "loadData samplePlatform
     (sampleFs\<lparr>dirs := {''/'', ''/data'', ''/new''},
               files := [''/new/chronflow-activity-store.json'' \<mapsto> ''{version:1,days:{}}''],
               readFails := {''/new/chronflow-activity-store.json''}\<rparr>)
     ''/new/chronflow-activity-store.json'' =
   (Inr None,
    sampleFs\<lparr>dirs := {''/'', ''/data'', ''/new''},
               files := [''/new/chronflow-activity-store.json'' \<mapsto> ''{version:1,days:{}}''],
               readFails := {''/new/chronflow-activity-store.json''}\<rparr>)"
  by (simp add: loadData_def loadDataTry_def sample_new_dirname existsSync_def sampleFs_def
      readFileSync_def Let_def)

lemma sample_load_no_dir:
  "loadData samplePlatform (sampleFs\<lparr>writeFails := {''/new''}\<rparr>) ''/new/chronflow-activity-store.json'' =
   (Inr None, sampleFs\<lparr>writeFails := {''/new''}\<rparr>)"
proof -
  have e: "\<not> existsSync (sampleFs\<lparr>writeFails := {''/new''}\<rparr>) ''/new''"
    by (simp add: existsSync_def sampleFs_def)
  show ?thesis
    unfolding loadData_def loadDataTry_def Let_def sample_new_dirname using e
    by (simp add: sample_mkdir_fails)
qed

text \<open>
  Claim C9 as stated fails in three runs. Where the old file cannot be unlinked the call
  returns \<open>false\<close>, yet the new file, absent before, has been written. Where the file at the
  new path cannot be read, and where the new directory is missing and cannot be created for
  the reload, the failure is caught inside \<open>loadData\<close> and the call returns \<open>true\<close>, with the path
  and the adapter pointing to the new location.
\<close>

theorem C9_io_failure_counterexample:
  "updateStoragePath samplePlatform (\<lambda>d sm. (Inr (), sm)) (Some ''/new'') (sampleStorage (sampleStore []))
      (sampleOldFs\<lparr>unlinkFails := {''/data/chronflow-activity-store.json''}\<rparr>) =
     (False, sampleStorage (sampleStore []),
      sampleFs\<lparr>dirs := {''/'', ''/data'', ''/new''},
        unlinkFails := {''/data/chronflow-activity-store.json''},
        files := [''/data/chronflow-activity-store.json'' \<mapsto> ''{version:1,days:{}}'',
                  ''/new/chronflow-activity-store.json'' \<mapsto> ''{version:1,days:{}}'']\<rparr>) \<and>
   files (sampleOldFs\<lparr>unlinkFails := {''/data/chronflow-activity-store.json''}\<rparr>)
         ''/new/chronflow-activity-store.json'' = None \<and>
   updateStoragePath samplePlatform (\<lambda>d sm. (Inr (), sm)) (Some ''/new'') (sampleStorage (sampleStore []))
      (sampleFs\<lparr>dirs := {''/'', ''/data'', ''/new''},
               files := [''/new/chronflow-activity-store.json'' \<mapsto> ''{version:1,days:{}}''],
               readFails := {''/new/chronflow-activity-store.json''}\<rparr>) =
     (True,
      (sampleStorage (sampleStore []))
        \<lparr>dataFilePath := ''/new/chronflow-activity-store.json'',
         persistence := ''/new/chronflow-activity-store.json''\<rparr>,
      sampleFs\<lparr>dirs := {''/'', ''/data'', ''/new''},
               files := [''/new/chronflow-activity-store.json'' \<mapsto> ''{version:1,days:{}}''],
               readFails := {''/new/chronflow-activity-store.json''}\<rparr>) \<and>
   updateStoragePath samplePlatform (\<lambda>d sm. (Inr (), sm)) (Some ''/new'') (sampleStorage (sampleStore []))
      (sampleFs\<lparr>writeFails := {''/new''}\<rparr>) =
     (True,
      (sampleStorage (sampleStore []))
        \<lparr>dataFilePath := ''/new/chronflow-activity-store.json'',
         persistence := ''/new/chronflow-activity-store.json''\<rparr>,
      sampleFs\<lparr>writeFails := {''/new''}\<rparr>)"
proof -
  let ?fs = "sampleOldFs\<lparr>unlinkFails := {''/data/chronflow-activity-store.json''}\<rparr>"
  let ?fsr = "sampleFs\<lparr>dirs := {''/'', ''/data'', ''/new''},
               files := [''/new/chronflow-activity-store.json'' \<mapsto> ''{version:1,days:{}}''],
               readFails := {''/new/chronflow-activity-store.json''}\<rparr>"
  let ?fsw = "sampleFs\<lparr>writeFails := {''/new''}\<rparr>"
  have old: "dataFilePath (sampleStorage (sampleStore [])) = ''/data/chronflow-activity-store.json''"
    by (simp add: sampleStorage_def)
  have ex: "existsSync ?fs ''/data/chronflow-activity-store.json'' \<and>
            \<not> existsSync ?fs ''/new/chronflow-activity-store.json''"
    by (simp add: existsSync_def sampleOldFs_def sampleFs_def)
  have 1: "updateStoragePath samplePlatform (\<lambda>d sm. (Inr (), sm)) (Some ''/new'') (sampleStorage (sampleStore [])) ?fs =
     (False, sampleStorage (sampleStore []), sampleFs\<lparr>dirs := {''/'', ''/data'', ''/new''},
        unlinkFails := {''/data/chronflow-activity-store.json''},
        files := [''/data/chronflow-activity-store.json'' \<mapsto> ''{version:1,days:{}}'',
                  ''/new/chronflow-activity-store.json'' \<mapsto> ''{version:1,days:{}}'']\<rparr>)"
    unfolding updateStoragePath_def Let_def sample_new_path old
    using ex by (simp add: sample_move_unlink_fails)
  have 2: "files ?fs ''/new/chronflow-activity-store.json'' = None"
    by (simp add: sampleOldFs_def sampleFs_def)
  have exr: "\<not> existsSync ?fsr ''/data/chronflow-activity-store.json''"
    by (simp add: existsSync_def sampleFs_def)
  have 3: "updateStoragePath samplePlatform (\<lambda>d sm. (Inr (), sm)) (Some ''/new'') (sampleStorage (sampleStore [])) ?fsr =
     (True, (sampleStorage (sampleStore []))
        \<lparr>dataFilePath := ''/new/chronflow-activity-store.json'',
         persistence := ''/new/chronflow-activity-store.json''\<rparr>, ?fsr)"
    unfolding updateStoragePath_def Let_def sample_new_path old
    using exr by (simp add: sample_load_unreadable sampleStorage_def)
  have exw: "\<not> existsSync ?fsw ''/data/chronflow-activity-store.json''"
    by (simp add: existsSync_def sampleFs_def)
  have 4: "updateStoragePath samplePlatform (\<lambda>d sm. (Inr (), sm)) (Some ''/new'') (sampleStorage (sampleStore [])) ?fsw =
     (True, (sampleStorage (sampleStore []))
        \<lparr>dataFilePath := ''/new/chronflow-activity-store.json'',
         persistence := ''/new/chronflow-activity-store.json''\<rparr>, ?fsw)"
    unfolding updateStoragePath_def Let_def sample_new_path old
    using exw by (simp add: sample_load_no_dir sampleStorage_def)
  show ?thesis using 1 2 3 4 by simp
qed

text \<open>
  An instance of C9: the store file moves from \<open>/data\<close> to \<open>/new\<close> and is loaded there.
\<close>

theorem C9_updateStoragePath_witness:
  "updateStoragePath samplePlatform (\<lambda>d sm. (Inr (), sm)) (Some ''/new'')
      (sampleStorage (sampleStore [(''2024-05-01'', \<lparr>heartbeats = [beat 10 Active]\<rparr>)])) sampleOldFs =
   (True,
    (sampleStorage (sampleStore []))
      \<lparr>dataFilePath := ''/new/chronflow-activity-store.json'',
       persistence := ''/new/chronflow-activity-store.json''\<rparr>,
    sampleFs\<lparr>dirs := {''/'', ''/data'', ''/new''},
             files := [''/new/chronflow-activity-store.json'' \<mapsto> ''{version:1,days:{}}'']\<rparr>)"
proof -
  let ?s = "sampleStorage (sampleStore [(''2024-05-01'', \<lparr>heartbeats = [beat 10 Active]\<rparr>)])"
  let ?fs' = "sampleFs\<lparr>dirs := {''/'', ''/data'', ''/new''},
             files := [''/new/chronflow-activity-store.json'' \<mapsto> ''{version:1,days:{}}'']\<rparr>"
  let ?new = "''/new/chronflow-activity-store.json''"
  have old: "dataFilePath ?s = ''/data/chronflow-activity-store.json''"
    by (simp add: sampleStorage_def)
  have ex: "existsSync sampleOldFs ''/data/chronflow-activity-store.json'' \<and>
            \<not> existsSync sampleOldFs ?new"
    by (simp add: existsSync_def sampleOldFs_def sampleFs_def)
  from C9_updateStoragePath[of "Some ''/new''" samplePlatform "\<lambda>d sm. (Inr (), sm)" ?s sampleOldFs]
  obtain ok s' fs' where
    r: "updateStoragePath samplePlatform (\<lambda>d sm. (Inr (), sm)) (Some ''/new'') ?s sampleOldFs = (ok, s', fs')" and
    okc: "ok \<longleftrightarrow>
         (if existsSync sampleOldFs (dataFilePath ?s) \<and> \<not> existsSync sampleOldFs (newStoreFilePath samplePlatform (Some ''/new''))
          then fst (moveStoreFile samplePlatform sampleOldFs (dataFilePath ?s) (newStoreFilePath samplePlatform (Some ''/new''))) = Inr () else True) \<and>
         fst ((Inr (), settingsManager ?s) :: (jsError + unit) \<times> unit) = Inr ()" and
    st: "ok \<longrightarrow>
         dataFilePath s' = newStoreFilePath samplePlatform (Some ''/new'') \<and>
         persistence s' = newStoreFilePath samplePlatform (Some ''/new'') \<and>
         ((Inr (), settingsManager ?s) :: (jsError + unit) \<times> unit) = (Inr (), settingsManager s') \<and> options s' = options ?s \<and>
         activityState s' =
           (case fst (loadData samplePlatform fs' (newStoreFilePath samplePlatform (Some ''/new''))) of
              Inr (Some d) \<Rightarrow> setData (asStoreData samplePlatform d) (activityState ?s)
            | _ \<Rightarrow> activityState ?s)"
    by blast
  have ok: ok
    using okc ex by (simp add: old sample_new_path sample_move)
  have fs': "fs' = ?fs'"
  proof -
    have "snd (snd (updateStoragePath samplePlatform (\<lambda>d sm. (Inr (), sm)) (Some ''/new'') ?s sampleOldFs)) = ?fs'"
      unfolding updateStoragePath_def Let_def sample_new_path old
      using ex by (simp add: sample_move sample_load_new)
    then show ?thesis using r by simp
  qed
  have cast: "asStoreData samplePlatform d = sampleStore []" for d
    by (simp add: samplePlatform_def)
  have "activityState s' = sampleStore []"
    using st ok by (simp add: fs' sample_new_path sample_load_new setData_def cast)
  moreover have "dataFilePath s' = ?new \<and> persistence s' = ?new \<and> options s' = options ?s"
    using st ok by (simp add: sample_new_path)
  ultimately have "s' = (sampleStorage (sampleStore []))\<lparr>dataFilePath := ?new, persistence := ?new\<rparr>"
    by (cases s') (simp add: sampleStorage_def)
  then show ?thesis using r ok fs' by simp
qed

section \<open>Day data through the facade, and the aggregation cache\<close>

lemma matchesDateKey_nonempty: "matchesDateKey k \<Longrightarrow> k \<noteq> []"
  by (auto simp: matchesDateKey_def)

lemma storedHeartbeats_key:
  "k \<noteq> [] \<Longrightarrow>
   storedHeartbeats getDateKey now1 now2 s k =
     (if matchesDateKey k
      then (case getHeartbeats (activityState s) k of None \<Rightarrow> [] | Some hs \<Rightarrow> hs) else [])"
  by (auto simp: storedHeartbeats_def getDayData_def Let_def split: option.splits)

lemma getAggregatedData_result:
  "getAggregatedData tg getDateKey now1 now2 s k svc =
     (case aggregationCache svc k of
        Some c \<Rightarrow> (Some c, svc)
      | None \<Rightarrow>
          (Some \<lparr>summary = zeroSummary,
                 timelineEvents = generateTimelineEvents tg (generatorInterval svc)
                                    (storedHeartbeats getDateKey now1 now2 s k)\<rparr>,
           svc\<lparr>aggregationCache := (aggregationCache svc)(k \<mapsto>
               \<lparr>summary = zeroSummary,
                timelineEvents = generateTimelineEvents tg (generatorInterval svc)
                                   (storedHeartbeats getDateKey now1 now2 s k)\<rparr>)\<rparr>))"
  by (simp add: getAggregatedData_def Let_def split: option.splits)

lemma getDayDataWithAggregation_snd:
  "snd (getDayDataWithAggregation tg getDateKey now1 now2 now3 now4 s k svc) =
     snd (getAggregatedData tg getDateKey now3 now4 s k svc)"
  by (simp add: getDayDataWithAggregation_def Let_def split: prod.splits option.splits)

lemma facadeGetDayData_result:
  "facadeGetDayData tg getDateKey now0 now1 now2 now3 now4 s dateKey svc =
     (Some \<lparr>dayHeartbeats = storedHeartbeats getDateKey now1 now2 s (effectiveDateKey getDateKey now0 dateKey),
            dayTimelineEvents =
              (case aggregationCache svc (effectiveDateKey getDateKey now0 dateKey) of
                 Some c \<Rightarrow> timelineEvents c
               | None \<Rightarrow> generateTimelineEvents tg (generatorInterval svc)
                           (storedHeartbeats getDateKey now3 now4 s (effectiveDateKey getDateKey now0 dateKey)))\<rparr>,
      snd (getAggregatedData tg getDateKey now3 now4 s (effectiveDateKey getDateKey now0 dateKey) svc))"
  unfolding facadeGetDayData_def Let_def effectiveDateKey_def[symmetric] getDayDataWithAggregation_def
    getAggregatedData_result
  by (simp split: option.splits)

lemma facadeGetDayData_snd:
  "snd (facadeGetDayData tg getDateKey now0 now1 now2 now3 now4 s dateKey svc) =
     snd (getAggregatedData tg getDateKey now3 now4 s (effectiveDateKey getDateKey now0 dateKey) svc)"
  by (simp add: facadeGetDayData_result)

lemma getAggregatedData_invalid_key:
  assumes inv: "\<And>k c. k \<noteq> [] \<Longrightarrow> \<not> matchesDateKey k \<Longrightarrow> aggregationCache svc k = Some c \<Longrightarrow>
                 timelineEvents c = []"
    and gen: "\<forall>i. generateTimelineEvents tg i [] = []"
    and k: "k \<noteq> []" "\<not> matchesDateKey k"
    and c: "aggregationCache (snd (getAggregatedData tg getDateKey now1 now2 s k' svc)) k = Some c"
  shows "timelineEvents c = []"
proof (cases "aggregationCache svc k'")
  case (Some c')
  then show ?thesis using c inv[OF k] by (simp add: getAggregatedData_result)
next
  case None
  show ?thesis
  proof (cases "k' = k")
    case True
    then show ?thesis
      using c None k gen by (auto simp: getAggregatedData_result storedHeartbeats_key)
  next
    case False
    then show ?thesis using c None inv[OF k] by (simp add: getAggregatedData_result)
  qed
qed

lemma reachable_invalid_key:
  assumes "reachable tg getDateKey S svc"
    and gen: "\<forall>i. generateTimelineEvents tg i [] = []"
  shows "k \<noteq> [] \<Longrightarrow> \<not> matchesDateKey k \<Longrightarrow> aggregationCache svc k = Some c \<Longrightarrow>
         timelineEvents c = []"
  using assms(1)
proof (induction arbitrary: k c rule: reachable.induct)
  case (constructed i)
  then show ?case by simp
next
  case (cleared svc)
  then show ?case by (simp add: clearCache_def)
next
  case (interval_set svc i)
  then show ?case by (auto simp: setAggregationInterval_def clearCache_def split: if_splits)
next
  case (day_aggregated svc s now1 now2 k')
  show ?case
  proof (cases "k' = k")
    case True
    then show ?thesis
      using day_aggregated.prems gen
      by (auto simp: aggregateDay_def Let_def storedHeartbeats_key)
  next
    case False
    then show ?thesis
      using day_aggregated.prems day_aggregated.IH[of k c]
      by (simp add: aggregateDay_def Let_def)
  qed
next
  case (data_read svc s now1 now2 k')
  show ?case
    by (rule getAggregatedData_invalid_key[OF data_read.IH gen data_read.prems(1,2) data_read.prems(3)])
next
  case (day_read svc s now1 now2 now3 now4 k')
  show ?case
    by (rule getAggregatedData_invalid_key[OF day_read.IH gen day_read.prems(1,2)
          day_read.prems(3)[unfolded getDayDataWithAggregation_snd]])
next
  case (facade_read svc s now0 now1 now2 now3 now4 dateKey)
  show ?case
    by (rule getAggregatedData_invalid_key[OF facade_read.IH gen facade_read.prems(1,2)
          facade_read.prems(3)[unfolded facadeGetDayData_snd]])
qed

text \<open>
  Claim C10, as amended. For every key argument the facade's \<open>getDayData\<close> returns an object,
  never \<open>null\<close>. Its heartbeats are those the storage manager returns for the effective key,
  and none where the storage manager returns \<open>null\<close>, as it does for a non-empty malformed key
  and for a well-formed key other than today's without stored heartbeats. Its timeline
  events are those of the cache entry of the effective key when there is one, and otherwise
  the events generated from the stored heartbeats. With a generator that produces no events
  from no heartbeats, both lists are empty for a non-empty malformed key in every state that
  the service reaches from its construction, and for an unknown day without a cache entry;
  for an unknown day with a cache entry the timeline events are the cached ones.
\<close>

theorem C10_facade_getDayData:
  "\<exists>d svc'.
     facadeGetDayData tg getDateKey now0 now1 now2 now3 now4 s dateKey svc = (Some d, svc') \<and>
     dayHeartbeats d =
       (case getDayData getDateKey now1 now2 s (Some (effectiveDateKey getDateKey now0 dateKey)) of
          None \<Rightarrow> [] | Some x \<Rightarrow> heartbeats x) \<and>
     dayTimelineEvents d =
       (case aggregationCache svc (effectiveDateKey getDateKey now0 dateKey) of
          Some c \<Rightarrow> timelineEvents c
        | None \<Rightarrow> generateTimelineEvents tg (generatorInterval svc)
                    (storedHeartbeats getDateKey now3 now4 s (effectiveDateKey getDateKey now0 dateKey))) \<and>
     (\<forall>k. dateKey = Some k \<and> k \<noteq> [] \<and> \<not> matchesDateKey k \<longrightarrow>
        getDayData getDateKey now1 now2 s dateKey = None \<and> dayHeartbeats d = [] \<and>
        (reachable tg getDateKey S svc \<and> (\<forall>i. generateTimelineEvents tg i [] = []) \<longrightarrow>
           dayTimelineEvents d = [])) \<and>
     (\<forall>k. dateKey = Some k \<and> matchesDateKey k \<and> k \<noteq> getDateKey now2 \<and>
          (getHeartbeats (activityState s) k = None \<or> getHeartbeats (activityState s) k = Some []) \<longrightarrow>
        getDayData getDateKey now1 now2 s dateKey = None \<and> dayHeartbeats d = [] \<and>
        (aggregationCache svc k = None \<and> generateTimelineEvents tg (generatorInterval svc) [] = [] \<longrightarrow>
           dayTimelineEvents d = []) \<and>
        (\<forall>c. aggregationCache svc k = Some c \<longrightarrow> dayTimelineEvents d = timelineEvents c))"
proof -
  let ?k = "effectiveDateKey getDateKey now0 dateKey"
  let ?hs = "storedHeartbeats getDateKey now1 now2 s ?k"
  let ?ev = "case aggregationCache svc ?k of
          Some c \<Rightarrow> timelineEvents c
        | None \<Rightarrow> generateTimelineEvents tg (generatorInterval svc) (storedHeartbeats getDateKey now3 now4 s ?k)"
  let ?d = "\<lparr>dayHeartbeats = ?hs, dayTimelineEvents = ?ev\<rparr>"
  let ?svc' = "snd (getAggregatedData tg getDateKey now3 now4 s ?k svc)"
  have r: "facadeGetDayData tg getDateKey now0 now1 now2 now3 now4 s dateKey svc = (Some ?d, ?svc')"
    by (rule facadeGetDayData_result)
  have hs: "dayHeartbeats ?d =
       (case getDayData getDateKey now1 now2 s (Some ?k) of None \<Rightarrow> [] | Some x \<Rightarrow> heartbeats x)"
    by (simp add: storedHeartbeats_def)
  have invalid: "getDayData getDateKey now1 now2 s dateKey = None \<and> dayHeartbeats ?d = [] \<and>
        (reachable tg getDateKey S svc \<and> (\<forall>i. generateTimelineEvents tg i [] = []) \<longrightarrow>
           dayTimelineEvents ?d = [])"
    if a: "dateKey = Some k \<and> k \<noteq> [] \<and> \<not> matchesDateKey k" for k
  proof -
    have k: "?k = k" using a by (simp add: effectiveDateKey_def)
    have g: "getDayData getDateKey now1 now2 s dateKey = None"
      using a by (simp add: getDayData_def)
    have h: "?hs = []" using a unfolding k by (simp add: storedHeartbeats_key)
    have e: "?ev = []" if re: "reachable tg getDateKey S svc" and gen: "\<forall>i. generateTimelineEvents tg i [] = []"
    proof (cases "aggregationCache svc k")
      case None
      then show ?thesis using a gen unfolding k by (simp add: storedHeartbeats_key)
    next
      case (Some c)
      then show ?thesis
        using reachable_invalid_key[OF re gen, of k c] a unfolding k by simp
    qed
    show ?thesis using g h e by simp
  qed
  have unknown: "getDayData getDateKey now1 now2 s dateKey = None \<and> dayHeartbeats ?d = [] \<and>
        (aggregationCache svc k = None \<and> generateTimelineEvents tg (generatorInterval svc) [] = [] \<longrightarrow>
           dayTimelineEvents ?d = []) \<and>
        (\<forall>c. aggregationCache svc k = Some c \<longrightarrow> dayTimelineEvents ?d = timelineEvents c)"
    if a: "dateKey = Some k \<and> matchesDateKey k \<and> k \<noteq> getDateKey now2 \<and>
          (getHeartbeats (activityState s) k = None \<or> getHeartbeats (activityState s) k = Some [])" for k
  proof -
    have ne: "k \<noteq> []" using a matchesDateKey_nonempty by blast
    have k: "?k = k" using a ne by (simp add: effectiveDateKey_def)
    have g: "getDayData getDateKey now1 now2 s dateKey = None"
      using a ne by (auto simp: getDayData_def Let_def)
    have h: "storedHeartbeats getDateKey n1 n2 s k = []" for n1 n2
      using a ne by (auto simp: storedHeartbeats_key)
    show ?thesis using g unfolding k by (simp add: h)
  qed
  have ev: "dayTimelineEvents ?d = ?ev" by simp
  have c4: "\<forall>k. dateKey = Some k \<and> k \<noteq> [] \<and> \<not> matchesDateKey k \<longrightarrow>
        getDayData getDateKey now1 now2 s dateKey = None \<and> dayHeartbeats ?d = [] \<and>
        (reachable tg getDateKey S svc \<and> (\<forall>i. generateTimelineEvents tg i [] = []) \<longrightarrow>
           dayTimelineEvents ?d = [])"
    using invalid by blast
  have c5: "\<forall>k. dateKey = Some k \<and> matchesDateKey k \<and> k \<noteq> getDateKey now2 \<and>
          (getHeartbeats (activityState s) k = None \<or> getHeartbeats (activityState s) k = Some []) \<longrightarrow>
        getDayData getDateKey now1 now2 s dateKey = None \<and> dayHeartbeats ?d = [] \<and>
        (aggregationCache svc k = None \<and> generateTimelineEvents tg (generatorInterval svc) [] = [] \<longrightarrow>
           dayTimelineEvents ?d = []) \<and>
        (\<forall>c. aggregationCache svc k = Some c \<longrightarrow> dayTimelineEvents ?d = timelineEvents c)"
    using unknown by blast
  show ?thesis
    by (intro exI[of _ ?d] exI[of _ ?svc']) (intro conjI r hs ev c4 c5)
qed

text \<open>
  Instances of C10 on an empty store: a malformed key on the empty cache, the same key again
  on the cache that the first call leaves, and a well-formed day without data.
\<close>

theorem C10_facade_getDayData_witness:
  "facadeGetDayData sampleGenerator (\<lambda>t. ''2024-05-01'') 1714525200000 1714525200001 1714525200002
      1714525200003 1714525200004 (sampleStorage (sampleStore [])) (Some ''yesterday'') sampleService =
     (Some \<lparr>dayHeartbeats = [], dayTimelineEvents = []\<rparr>,
      sampleService\<lparr>aggregationCache := [''yesterday'' \<mapsto> \<lparr>summary = zeroSummary, timelineEvents = []\<rparr>]\<rparr>) \<and>
   facadeGetDayData sampleGenerator (\<lambda>t. ''2024-05-01'') 1714525200000 1714525200001 1714525200002
      1714525200003 1714525200004 (sampleStorage (sampleStore [])) (Some ''yesterday'')
      (sampleService\<lparr>aggregationCache := [''yesterday'' \<mapsto> \<lparr>summary = zeroSummary, timelineEvents = []\<rparr>]\<rparr>) =
     (Some \<lparr>dayHeartbeats = [], dayTimelineEvents = []\<rparr>,
      sampleService\<lparr>aggregationCache := [''yesterday'' \<mapsto> \<lparr>summary = zeroSummary, timelineEvents = []\<rparr>]\<rparr>) \<and>
   getDayData (\<lambda>t. ''2024-05-01'') 1714525200001 1714525200002 (sampleStorage (sampleStore []))
      (Some ''yesterday'') = None \<and>
   fst (facadeGetDayData sampleGenerator (\<lambda>t. ''2024-05-01'') 1714525200000 1714525200001 1714525200002
      1714525200003 1714525200004 (sampleStorage (sampleStore [])) (Some ''2024-04-01'') sampleService) =
     Some \<lparr>dayHeartbeats = [], dayTimelineEvents = []\<rparr> \<and>
   getDayData (\<lambda>t. ''2024-05-01'') 1714525200001 1714525200002 (sampleStorage (sampleStore []))
      (Some ''2024-04-01'') = None"
proof -
  let ?g = "\<lambda>t::int. ''2024-05-01''"
  let ?s = "sampleStorage (sampleStore [])"
  let ?svc1 = "sampleService\<lparr>aggregationCache := [''yesterday'' \<mapsto> \<lparr>summary = zeroSummary, timelineEvents = []\<rparr>]\<rparr>"
  let ?f = "facadeGetDayData sampleGenerator ?g 1714525200000 1714525200001 1714525200002
      1714525200003 1714525200004 ?s"
  have bad: "\<not> matchesDateKey ''yesterday''" by (simp add: matchesDateKey_def)
  have gen: "\<forall>i. generateTimelineEvents sampleGenerator i [] = []" by (simp add: sampleGenerator_def)
  have none: "getHeartbeats (activityState ?s) k = None" for k
    by (simp add: getHeartbeats_def sampleStorage_def sampleStore_def)
  have r0: "reachable sampleGenerator ?g (UNIV :: unit activityStorage set) sampleService"
    unfolding sampleService_def by (rule reachable.constructed)
  have snd1: "snd (?f (Some ''yesterday'') sampleService) = ?svc1"
    using bad
    by (simp add: facadeGetDayData_result effectiveDateKey_def getAggregatedData_result
        storedHeartbeats_key sampleService_def sampleGenerator_def)
  have snd2: "snd (?f (Some ''yesterday'') ?svc1) = ?svc1"
    by (simp add: facadeGetDayData_result effectiveDateKey_def getAggregatedData_result)
  have r1: "reachable sampleGenerator ?g (UNIV :: unit activityStorage set) ?svc1"
    using reachable.facade_read[OF r0, of ?s 1714525200000 1714525200001 1714525200002
        1714525200003 1714525200004 "Some ''yesterday''"] snd1
    by simp
  have first: "?f (Some ''yesterday'') sampleService = (Some \<lparr>dayHeartbeats = [], dayTimelineEvents = []\<rparr>, ?svc1) \<and>
      getDayData ?g 1714525200001 1714525200002 ?s (Some ''yesterday'') = None"
  proof -
    from C10_facade_getDayData[where tg = sampleGenerator and getDateKey = ?g and ?now0.0 = 1714525200000
        and ?now1.0 = 1714525200001 and ?now2.0 = 1714525200002 and ?now3.0 = 1714525200003
        and ?now4.0 = 1714525200004 and s = ?s and dateKey = "Some ''yesterday''"
        and svc = sampleService and S = UNIV]
    obtain d svc' where
      r: "?f (Some ''yesterday'') sampleService = (Some d, svc')" and
      inv: "\<forall>k. Some ''yesterday'' = Some k \<and> k \<noteq> [] \<and> \<not> matchesDateKey k \<longrightarrow>
        getDayData ?g 1714525200001 1714525200002 ?s (Some ''yesterday'') = None \<and> dayHeartbeats d = [] \<and>
        (reachable sampleGenerator ?g (UNIV :: unit activityStorage set) sampleService \<and>
         (\<forall>i. generateTimelineEvents sampleGenerator i [] = []) \<longrightarrow> dayTimelineEvents d = [])"
      by blast
    from inv bad r0 gen have g: "getDayData ?g 1714525200001 1714525200002 ?s (Some ''yesterday'') = None"
      and h: "dayHeartbeats d = []" and e: "dayTimelineEvents d = []"
      by auto
    from h e have "d = \<lparr>dayHeartbeats = [], dayTimelineEvents = []\<rparr>"
      by (cases d) simp
    then show ?thesis using r snd1 g by simp
  qed
  have second: "?f (Some ''yesterday'') ?svc1 = (Some \<lparr>dayHeartbeats = [], dayTimelineEvents = []\<rparr>, ?svc1)"
  proof -
    from C10_facade_getDayData[where tg = sampleGenerator and getDateKey = ?g and ?now0.0 = 1714525200000
        and ?now1.0 = 1714525200001 and ?now2.0 = 1714525200002 and ?now3.0 = 1714525200003
        and ?now4.0 = 1714525200004 and s = ?s and dateKey = "Some ''yesterday''"
        and svc = ?svc1 and S = UNIV]
    obtain d svc' where
      r: "?f (Some ''yesterday'') ?svc1 = (Some d, svc')" and
      inv: "\<forall>k. Some ''yesterday'' = Some k \<and> k \<noteq> [] \<and> \<not> matchesDateKey k \<longrightarrow>
        getDayData ?g 1714525200001 1714525200002 ?s (Some ''yesterday'') = None \<and> dayHeartbeats d = [] \<and>
        (reachable sampleGenerator ?g (UNIV :: unit activityStorage set) ?svc1 \<and>
         (\<forall>i. generateTimelineEvents sampleGenerator i [] = []) \<longrightarrow> dayTimelineEvents d = [])"
      by blast
    from inv bad r1 gen have "dayHeartbeats d = []" and "dayTimelineEvents d = []"
      by auto
    then have "d = \<lparr>dayHeartbeats = [], dayTimelineEvents = []\<rparr>"
      by (cases d) simp
    then show ?thesis using r snd2 by simp
  qed
  have third: "fst (?f (Some ''2024-04-01'') sampleService) = Some \<lparr>dayHeartbeats = [], dayTimelineEvents = []\<rparr> \<and>
      getDayData ?g 1714525200001 1714525200002 ?s (Some ''2024-04-01'') = None"
  proof -
    from C10_facade_getDayData[where tg = sampleGenerator and getDateKey = ?g and ?now0.0 = 1714525200000
        and ?now1.0 = 1714525200001 and ?now2.0 = 1714525200002 and ?now3.0 = 1714525200003
        and ?now4.0 = 1714525200004 and s = ?s and dateKey = "Some ''2024-04-01''"
        and svc = sampleService and S = UNIV]
    obtain d svc' where
      r: "?f (Some ''2024-04-01'') sampleService = (Some d, svc')" and
      unk: "\<forall>k. Some ''2024-04-01'' = Some k \<and> matchesDateKey k \<and> k \<noteq> ?g 1714525200002 \<and>
          (getHeartbeats (activityState ?s) k = None \<or> getHeartbeats (activityState ?s) k = Some []) \<longrightarrow>
        getDayData ?g 1714525200001 1714525200002 ?s (Some ''2024-04-01'') = None \<and> dayHeartbeats d = [] \<and>
        (aggregationCache sampleService k = None \<and>
         generateTimelineEvents sampleGenerator (generatorInterval sampleService) [] = [] \<longrightarrow>
           dayTimelineEvents d = []) \<and>
        (\<forall>c. aggregationCache sampleService k = Some c \<longrightarrow> dayTimelineEvents d = timelineEvents c)"
      by blast
    have "aggregationCache sampleService ''2024-04-01'' = None" by (simp add: sampleService_def)
    with unk matchesDateKey_sample2 none gen
    have g: "getDayData ?g 1714525200001 1714525200002 ?s (Some ''2024-04-01'') = None"
      and h: "dayHeartbeats d = []" and e: "dayTimelineEvents d = []"
      by auto
    from h e have "d = \<lparr>dayHeartbeats = [], dayTimelineEvents = []\<rparr>"
      by (cases d) simp
    then show ?thesis using r g by simp
  qed
  show ?thesis using first second third by simp
qed

lemma sampleOldDay_first_read:
  "facadeGetDayData sampleGenerator (\<lambda>t. ''2024-05-01'') 1714525200000 1714525200000 1714525200000
      1714525200000 1714525200000 sampleOldDayStorage (Some ''2024-01-01'') sampleService =
   (Some \<lparr>dayHeartbeats = [beat 1704100000000 Active], dayTimelineEvents = [1704100000000]\<rparr>,
    sampleService\<lparr>aggregationCache :=
       [''2024-01-01'' \<mapsto> \<lparr>summary = zeroSummary, timelineEvents = [1704100000000]\<rparr>]\<rparr>)"
proof -
  have m: "matchesDateKey ''2024-01-01''" by (simp add: matchesDateKey_def isDigit_def)
  have g: "storedHeartbeats (\<lambda>t. ''2024-05-01'') n1 n2 sampleOldDayStorage ''2024-01-01'' =
      [beat 1704100000000 Active]" for n1 n2
    using m by (simp add: storedHeartbeats_key getHeartbeats_def sampleOldDayStorage_def
        sampleStorage_def sampleStore_def)
  show ?thesis
    by (simp add: facadeGetDayData_result effectiveDateKey_def getAggregatedData_result
        g sampleService_def sampleGenerator_def beat_def)
qed

lemma sampleOldDay_cleanup:
  "fst (cleanupOldData samplePlatform 1714525200000 1714525200000 sampleOldDayStorage sampleFs) =
     sampleStorage ((sampleStore [])\<lparr>lastCleanupTime := 1714525200000\<rparr>)"
proof -
  have pre: "\<not> useMockData (options sampleOldDayStorage)"
      "lastCleanupTime (activityState sampleOldDayStorage) \<le> 1714525200000 - 86400000"
    by (simp_all add: sampleOldDayStorage_def sampleStorage_def sampleStore_def)
  show ?thesis
    unfolding cleanupOldData_run[OF pre] Let_def
    by (simp add: sampleOldDayStorage_def sampleStorage_def sampleStore_def utcMidnightBefore_def
        samplePlatform_def)
qed

text \<open>
  Claim C10 as stated fails for a day that has lost its data: the day 2024-01-01 is read
  through the facade, which caches its events, then \<open>cleanupOldData\<close> deletes the day; the
  storage manager now returns \<open>null\<close> for the key, and the facade returns no heartbeats but
  the cached timeline event.
\<close>

theorem C10_stale_cache_counterexample:
  "getDayData (\<lambda>t. ''2024-05-01'') 1714525200000 1714525200000
      (fst (cleanupOldData samplePlatform 1714525200000 1714525200000 sampleOldDayStorage sampleFs))
      (Some ''2024-01-01'') = None \<and>
   fst (facadeGetDayData sampleGenerator (\<lambda>t. ''2024-05-01'') 1714525200000 1714525200000 1714525200000
      1714525200000 1714525200000
      (fst (cleanupOldData samplePlatform 1714525200000 1714525200000 sampleOldDayStorage sampleFs))
      (Some ''2024-01-01'')
      (snd (facadeGetDayData sampleGenerator (\<lambda>t. ''2024-05-01'') 1714525200000 1714525200000
              1714525200000 1714525200000 1714525200000 sampleOldDayStorage
              (Some ''2024-01-01'') sampleService))) =
     Some \<lparr>dayHeartbeats = [], dayTimelineEvents = [1704100000000]\<rparr>"
proof -
  have m: "matchesDateKey ''2024-01-01''" by (simp add: matchesDateKey_def isDigit_def)
  have g: "getDayData (\<lambda>t. ''2024-05-01'') 1714525200000 1714525200000
      (sampleStorage ((sampleStore [])\<lparr>lastCleanupTime := 1714525200000\<rparr>)) (Some ''2024-01-01'') = None"
    using m by (simp add: getDayData_def Let_def getHeartbeats_def sampleStorage_def sampleStore_def)
  show ?thesis
    unfolding sampleOldDay_cleanup sampleOldDay_first_read
    by (simp add: g facadeGetDayData_result effectiveDateKey_def storedHeartbeats_def sampleService_def)
qed

lemma getAggregatedData_hit:
  "aggregationCache svc k = Some c \<Longrightarrow> getAggregatedData tg getDateKey now1 now2 s k svc = (Some c, svc)"
  by (simp add: getAggregatedData_result)

lemma setAggregationInterval_clears:
  "interval \<in> {5, 10, 15} \<Longrightarrow>
   setAggregationInterval interval svc = svc\<lparr>generatorInterval := interval, aggregationCache := Map.empty\<rparr>"
  by (auto simp: setAggregationInterval_def clearCache_def)

lemma getAggregatedData_after_interval_change:
  "interval \<in> {5, 10, 15} \<Longrightarrow>
   timelineEvents (the (fst (getAggregatedData tg getDateKey now1 now2 s k (setAggregationInterval interval svc)))) =
     generateTimelineEvents tg interval (storedHeartbeats getDateKey now1 now2 s k)"
  by (simp add: setAggregationInterval_clears getAggregatedData_result)

text \<open>
  Claim C4, where the code departs from it. On an empty cache \<open>getAggregatedData\<close> generates
  the timeline events of the day, and returns and caches them with the all-zero summary:
  \<open>calculateSummary\<close> is not called. \<open>aggregateDay\<close> on the same state caches the same events with
  their calculated summary. For the sample day with one heartbeat the first summary is zero
  and the second counts 15 minutes of tracking.
\<close>

theorem C4_cache_miss_summary_zero:
  "getAggregatedData tg getDateKey now1 now2 s k (clearCache svc) =
     (Some \<lparr>summary = zeroSummary,
            timelineEvents = generateTimelineEvents tg (generatorInterval svc)
                               (storedHeartbeats getDateKey now1 now2 s k)\<rparr>,
      svc\<lparr>aggregationCache := [k \<mapsto>
            \<lparr>summary = zeroSummary,
             timelineEvents = generateTimelineEvents tg (generatorInterval svc)
                                (storedHeartbeats getDateKey now1 now2 s k)\<rparr>]\<rparr>) \<and>
   snd (aggregateDay tg getDateKey now1 now2 s k (clearCache svc)) =
      svc\<lparr>aggregationCache := [k \<mapsto>
            \<lparr>summary = calculateSummary tg
                 (generateTimelineEvents tg (generatorInterval svc) (storedHeartbeats getDateKey now1 now2 s k)),
             timelineEvents = generateTimelineEvents tg (generatorInterval svc)
                                (storedHeartbeats getDateKey now1 now2 s k)\<rparr>]\<rparr> \<and>
   summary (the (fst (getAggregatedData sampleGenerator (\<lambda>t. ''2024-05-01'') 1714525200000 1714525200000
       sampleOldDayStorage ''2024-01-01'' sampleService))) = zeroSummary \<and>
   summary (the (aggregationCache (snd (aggregateDay sampleGenerator (\<lambda>t. ''2024-05-01'') 1714525200000
       1714525200000 sampleOldDayStorage ''2024-01-01'' sampleService)) ''2024-01-01'')) =
     zeroSummary\<lparr>activeTrackingDuration := 900000\<rparr>"
proof -
  have m: "matchesDateKey ''2024-01-01''" by (simp add: matchesDateKey_def isDigit_def)
  have g: "storedHeartbeats (\<lambda>t. ''2024-05-01'') 1714525200000 1714525200000 sampleOldDayStorage ''2024-01-01'' =
      [beat 1704100000000 Active]"
    using m by (simp add: storedHeartbeats_def getDayData_def Let_def getHeartbeats_def sampleOldDayStorage_def
        sampleStorage_def sampleStore_def)
  have 1: "getAggregatedData tg getDateKey now1 now2 s k (clearCache svc) =
     (Some \<lparr>summary = zeroSummary,
            timelineEvents = generateTimelineEvents tg (generatorInterval svc)
                               (storedHeartbeats getDateKey now1 now2 s k)\<rparr>,
      svc\<lparr>aggregationCache := [k \<mapsto>
            \<lparr>summary = zeroSummary,
             timelineEvents = generateTimelineEvents tg (generatorInterval svc)
                                (storedHeartbeats getDateKey now1 now2 s k)\<rparr>]\<rparr>)"
    by (simp add: getAggregatedData_result clearCache_def)
  have 2: "snd (aggregateDay tg getDateKey now1 now2 s k (clearCache svc)) =
      svc\<lparr>aggregationCache := [k \<mapsto>
            \<lparr>summary = calculateSummary tg
                 (generateTimelineEvents tg (generatorInterval svc) (storedHeartbeats getDateKey now1 now2 s k)),
             timelineEvents = generateTimelineEvents tg (generatorInterval svc)
                                (storedHeartbeats getDateKey now1 now2 s k)\<rparr>]\<rparr>"
    by (simp add: aggregateDay_def clearCache_def Let_def)
  have 3: "summary (the (fst (getAggregatedData sampleGenerator (\<lambda>t. ''2024-05-01'') 1714525200000 1714525200000
       sampleOldDayStorage ''2024-01-01'' sampleService))) = zeroSummary"
    by (simp add: getAggregatedData_result sampleService_def)
  have 4: "summary (the (aggregationCache (snd (aggregateDay sampleGenerator (\<lambda>t. ''2024-05-01'') 1714525200000
       1714525200000 sampleOldDayStorage ''2024-01-01'' sampleService)) ''2024-01-01'')) =
     zeroSummary\<lparr>activeTrackingDuration := 900000\<rparr>"
    by (simp add: aggregateDay_def g Let_def sampleService_def sampleGenerator_def)
  show ?thesis using 1 2 3 4 by simp
qed

end
